theory Spec2Isabelle
  imports Main "HOL-Library.AList"
begin

section \<open>Data model of \<^verbatim>\<open>server/src/websocket/connection.js\<close>\<close>

text \<open>
  The module keeps three process-local maps: \<^verbatim>\<open>connections\<close> (socket id to session data),
  \<^verbatim>\<open>rooms\<close> (room id to a set of socket ids) and \<^verbatim>\<open>userSockets\<close> (user id to a set of
  socket ids). JavaScript maps and sets iterate in insertion order; a set is modelled as a
  list without repetitions, and \<^verbatim>\<open>connections\<close>, which the periodic sweep iterates, as an
  association list (\<open>AList.update\<close> overwrites in place or appends, as \<^verbatim>\<open>Map.set\<close> does).

  Identifiers, names and roles are strings; a timestamp is the number of milliseconds a
  \<^verbatim>\<open>Date\<close> holds. The value read by \<^verbatim>\<open>new Date()\<close> or \<^verbatim>\<open>Date.now()\<close> is the parameter
  \<open>now\<close> of the handler.
\<close>

record socket =
  sock_id :: string
  sock_userId :: string
  sock_userName :: string
  sock_userRole :: string

record connection =
  userId :: string
  userName :: string
  userRole :: string
  connectedAt :: int
  roomId :: "string option"
  isActive :: bool
  audioMuted :: "bool option"
  lastPing :: "int option"

record participant =
  p_userId :: string
  p_userName :: string
  p_userRole :: string
  p_socketId :: string
  p_audioMuted :: bool

record emergencyData =
  e_userId :: string
  e_userName :: string
  e_location :: "string option"
  e_message :: "string option"
  e_timestamp :: int
  e_roomId :: string

text \<open>The events the server sends, with their payloads.\<close>

datatype event =
    ErrorEvent string
  | RoomJoined string "participant list" int
  | ParticipantJoined string string string int
  | RoomState string "participant list" nat int
  | ParticipantLeft string string int
  | AudioChanged string string "bool option" int
  | Kicked string string int
  | ForcedMute string int
  | EmergencyReceived emergencyData
  | EmergencySent string int
  | Pong int

text \<open>
  What a handler does to the outside, in program order:
  \<^item> \<open>Emit s e\<close>: event \<open>e\<close> is sent on the one socket \<open>s\<close> (\<^verbatim>\<open>socket.emit\<close>);
  \<^item> \<open>Broadcast r rs e\<close>: one emit of \<open>e\<close> to the socket.io room named \<open>r\<close>
    (\<^verbatim>\<open>io.to(r).emit\<close> or \<^verbatim>\<open>socket.to(r).emit\<close>); \<open>rs\<close> are the sockets that socket.io finds
    in that room at that moment (without the sender for \<^verbatim>\<open>socket.to\<close>), which are the
    receivers;
  \<^item> \<open>Disconnected s\<close>: the server closes the connection of \<open>s\<close> (\<^verbatim>\<open>socket.disconnect(true)\<close>).
\<close>

datatype action =
    Emit string event
  | Broadcast string "string list" event
  | Disconnected string

text \<open>
  The state: the three maps of the module, the part of socket.io the module relies on
  (\<open>sockets\<close> is \<^verbatim>\<open>io.sockets.sockets\<close>, \<open>adapter\<close> the connected sockets in every socket.io room,
  in joining order) and the Redis keys it writes (the list \<^verbatim>\<open>emergencies:active\<close>, the sets
  \<^verbatim>\<open>room:<id>:participants\<close>, the hashes \<^verbatim>\<open>user:<id>\<close>; the expiry of the hashes is not modelled).

  socket.io rooms live in one name space: a connected socket is put in the room that carries
  its own id, and \<^verbatim>\<open>io.to(name)\<close> addresses whatever room has that name, be it the room of a
  socket id or a room a client asked to join.
\<close>

record state =
  connections :: "(string \<times> connection) list"
  rooms :: "string \<rightharpoonup> string list"
  userSockets :: "string \<rightharpoonup> string list"
  sockets :: "string \<rightharpoonup> socket"
  adapter :: "string \<Rightarrow> string list"
  emergencies :: "emergencyData list"
  room_participants :: "string \<Rightarrow> string list"
  user_status :: "string \<rightharpoonup> string \<times> int"

definition initial_state :: state where
  "initial_state =
     \<lparr>connections = [], rooms = Map.empty, userSockets = Map.empty, sockets = Map.empty,
      adapter = (\<lambda>r. []), emergencies = [], room_participants = (\<lambda>r. []),
      user_status = Map.empty\<rparr>"

text \<open>
  A Redis call resolves or is rejected, and a rejection is caught by the \<^verbatim>\<open>try\<close> block around
  the call. No handler run makes two calls of the same kind, so a run is given one reply per
  kind of call: \<^verbatim>\<open>sRem\<close> (in \<^verbatim>\<open>leaveRoom\<close>), \<^verbatim>\<open>sAdd\<close> (in \<^verbatim>\<open>room:join\<close>), \<^verbatim>\<open>lPush\<close> (in
  \<^verbatim>\<open>emergency:alert\<close>) and \<^verbatim>\<open>hSet\<close> (in \<^verbatim>\<open>updateUserStatus\<close>); \<open>True\<close> means the call resolved.
\<close>

record replies =
  sRem_ok :: bool
  sAdd_ok :: bool
  lPush_ok :: bool
  hSet_ok :: bool

definition all_ok :: replies where
  "all_ok = \<lparr>sRem_ok = True, sAdd_ok = True, lPush_ok = True, hSet_ok = True\<rparr>"

text \<open>Payloads of the client events. A field the client left out is \<open>None\<close>; a payload that is
  \<^verbatim>\<open>undefined\<close> (so that destructuring it throws) is \<open>None\<close> at the handler. The location of
  an alert, an object the server only passes on, is an opaque string.\<close>

record join_data =
  j_roomId :: "string option"
  j_userName :: "string option"

record toggle_data =
  t_isMuted :: "bool option"

record kick_data =
  k_targetSocketId :: "string option"
  k_reason :: "string option"

record mute_data =
  m_targetSocketId :: "string option"

record alert_data =
  a_location :: "string option"
  a_message :: "string option"

section \<open>Helpers\<close>

definition set_add :: "'a \<Rightarrow> 'a list \<Rightarrow> 'a list" where
  \<comment> \<open>\<^verbatim>\<open>Set.prototype.add\<close>\<close>
  "set_add x xs = (if x \<in> set xs then xs else xs @ [x])"

definition members :: "state \<Rightarrow> string \<Rightarrow> string list" where
  \<comment> \<open>the membership set of a room in \<^verbatim>\<open>rooms\<close>, empty when the room has no entry\<close>
  "members st r = (case rooms st r of None \<Rightarrow> [] | Some ms \<Rightarrow> ms)"

definition session :: "state \<Rightarrow> string \<Rightarrow> connection option" where
  \<comment> \<open>\<^verbatim>\<open>connections.get(id)\<close>\<close>
  "session st s = map_of (connections st) s"

definition io_accept :: "state \<Rightarrow> socket \<Rightarrow> state" where
  \<comment> \<open>what socket.io does with a new socket before it calls the connection callback: it
      registers the socket and puts it in the room named by the socket's id\<close>
  "io_accept st sock =
     st\<lparr>sockets := (sockets st)(sock_id sock \<mapsto> sock),
        adapter := (adapter st)(sock_id sock := set_add (sock_id sock) (adapter st (sock_id sock)))\<rparr>"

definition socket_join :: "state \<Rightarrow> socket \<Rightarrow> string \<Rightarrow> state" where
  \<comment> \<open>\<^verbatim>\<open>socket.join(room)\<close>; a closed socket receives nothing whatever room it is put in, so
      for a closed socket the call is taken to have no effect\<close>
  "socket_join st sock r =
     (if sockets st (sock_id sock) = None then st
      else st\<lparr>adapter := (adapter st)(r := set_add (sock_id sock) (adapter st r))\<rparr>)"

definition socket_leave :: "state \<Rightarrow> socket \<Rightarrow> string \<Rightarrow> state" where
  \<comment> \<open>\<^verbatim>\<open>socket.leave(room)\<close>\<close>
  "socket_leave st sock r =
     st\<lparr>adapter := (adapter st)(r := removeAll (sock_id sock) (adapter st r))\<rparr>"

definition io_close :: "state \<Rightarrow> socket \<Rightarrow> state" where
  \<comment> \<open>what socket.io does when a socket closes, before it fires \<^verbatim>\<open>disconnect\<close>: the socket
      leaves every room and is removed from \<^verbatim>\<open>io.sockets.sockets\<close>\<close>
  "io_close st sock =
     st\<lparr>adapter := (\<lambda>r. removeAll (sock_id sock) (adapter st r)),
        sockets := (sockets st)(sock_id sock := None)\<rparr>"

definition io_to :: "state \<Rightarrow> string \<Rightarrow> event \<Rightarrow> action" where
  \<comment> \<open>\<^verbatim>\<open>io.to(name).emit(...)\<close>: to every socket in the room of that name\<close>
  "io_to st r e = Broadcast r (adapter st r) e"

definition socket_to :: "state \<Rightarrow> socket \<Rightarrow> string \<Rightarrow> event \<Rightarrow> action" where
  \<comment> \<open>\<^verbatim>\<open>socket.to(name).emit(...)\<close>: to every socket in the room of that name but the sender\<close>
  "socket_to st sock r e = Broadcast r (removeAll (sock_id sock) (adapter st r)) e"

definition rooms_remove :: "string \<Rightarrow> string \<Rightarrow> (string \<rightharpoonup> string list) \<Rightarrow> (string \<rightharpoonup> string list)" where
  \<comment> \<open>lines 366-374: delete the socket from the room's set, delete the room if empty\<close>
  "rooms_remove r s rs =
     (case rs r of
        None \<Rightarrow> rs
      | Some ms \<Rightarrow>
          (let ms' = removeAll s ms in if ms' = [] then rs(r := None) else rs(r \<mapsto> ms')))"

definition updateUserStatus :: "state \<Rightarrow> string \<Rightarrow> string \<Rightarrow> int \<Rightarrow> bool \<Rightarrow> state" where
  \<comment> \<open>lines 439-451; a rejected \<^verbatim>\<open>hSet\<close> is caught at line 448 and only logged\<close>
  "updateUserStatus st u status now ok =
     (if ok then st\<lparr>user_status := (user_status st)(u \<mapsto> (status, now))\<rparr> else st)"

fun getRoomParticipants_loop :: "(string \<rightharpoonup> connection) \<Rightarrow> string list \<Rightarrow> participant list" where
  "getRoomParticipants_loop cs [] = []"
| "getRoomParticipants_loop cs (s # ss) =
     (case cs s of
        None \<Rightarrow> getRoomParticipants_loop cs ss
      | Some conn \<Rightarrow>
          \<lparr>p_userId = userId conn, p_userName = userName conn, p_userRole = userRole conn,
           p_socketId = s,
           p_audioMuted = (case audioMuted conn of None \<Rightarrow> False | Some b \<Rightarrow> b)\<rparr>
          # getRoomParticipants_loop cs ss)"

definition getRoomParticipants :: "state \<Rightarrow> string \<Rightarrow> participant list" where
  "getRoomParticipants st r =
     (case rooms st r of
        None \<Rightarrow> []
      | Some socketIds \<Rightarrow> getRoomParticipants_loop (session st) socketIds)"

section \<open>Leaving a room\<close>

text \<open>
  \<^verbatim>\<open>leaveRoom\<close> (lines 354-394) suspends once, at \<^verbatim>\<open>await redisClient.sRem\<close>; while it is
  suspended other handlers run. The part before the \<^verbatim>\<open>await\<close> is \<open>leaveRoom_begin\<close>; it yields
  the room the suspended call is leaving, or \<open>None\<close> when the call returned at its guard.
  The part after it is \<open>leaveRoom_resume\<close>: when \<^verbatim>\<open>sRem\<close> resolved, the fan-out of line 380
  and the assignment \<^verbatim>\<open>connection.roomId = null\<close>; when it was rejected, the \<^verbatim>\<open>catch\<close> of line
  391, which only logs. The assignment writes to the connection object the call holds: that
  is the entry of \<^verbatim>\<open>connections\<close> under the socket's id as long as the entry has not been
  deleted (socket.io gives every socket an id of its own, so the entry is not replaced), and
  an object no longer in the map otherwise. \<open>leaveRoom\<close> is the call that runs
  undisturbed, the two parts in sequence.
\<close>

definition truthy :: "string option \<Rightarrow> bool" where
  \<comment> \<open>JavaScript truthiness of a room id that is \<^verbatim>\<open>null\<close> or a string\<close>
  "truthy x = (case x of None \<Rightarrow> False | Some r \<Rightarrow> r \<noteq> [])"

definition leaveRoom_begin :: "state \<Rightarrow> socket \<Rightarrow> state \<times> string option" where
  "leaveRoom_begin st sock =
     (case session st (sock_id sock) of
        None \<Rightarrow> (st, None)
      | Some conn \<Rightarrow>
          (case roomId conn of
             None \<Rightarrow> (st, None)
           | Some r \<Rightarrow>
               if r = [] then (st, None)
               else
                 (let st1 = socket_leave st sock r;
                      st2 = st1\<lparr>rooms := rooms_remove r (sock_id sock) (rooms st1)\<rparr>
                  in (st2, Some r))))"

definition leaveRoom_resume ::
  "state \<Rightarrow> socket \<Rightarrow> string option \<Rightarrow> int \<Rightarrow> bool \<Rightarrow> state \<times> action list" where
  "leaveRoom_resume st sock susp now ok =
     (case susp of
        None \<Rightarrow> (st, [])
      | Some r \<Rightarrow>
          if \<not> ok then (st, [])
          else
            (let st1 = st\<lparr>room_participants := (room_participants st)
                          (r := removeAll (sock_userId sock) (room_participants st r))\<rparr>;
                 out = [io_to st1 r (ParticipantLeft (sock_userId sock) (sock_userName sock) now)];
                 st2 = (case session st1 (sock_id sock) of
                          None \<Rightarrow> st1
                        | Some conn \<Rightarrow>
                            st1\<lparr>connections :=
                                 AList.update (sock_id sock) (conn\<lparr>roomId := None\<rparr>)
                                   (connections st1)\<rparr>)
             in (st2, out)))"

definition leaveRoom :: "state \<Rightarrow> socket \<Rightarrow> int \<Rightarrow> bool \<Rightarrow> state \<times> action list" where
  "leaveRoom st sock now ok =
     (let (st1, susp) = leaveRoom_begin st sock in leaveRoom_resume st1 sock susp now ok)"

section \<open>Connection and disconnection\<close>

definition on_connection :: "state \<Rightarrow> socket \<Rightarrow> int \<Rightarrow> replies \<Rightarrow> state \<times> action list" where
  \<comment> \<open>lines 46-66, the body of \<^verbatim>\<open>io.on('connection')\<close> before the handlers are installed\<close>
  "on_connection st sock now rp =
     (let st1 = st\<lparr>connections :=
                  AList.update (sock_id sock)
                    \<lparr>userId = sock_userId sock, userName = sock_userName sock,
                     userRole = sock_userRole sock, connectedAt = now, roomId = None,
                     isActive = True, audioMuted = None, lastPing = None\<rparr>
                    (connections st)\<rparr>;
          st2 = st1\<lparr>userSockets := (userSockets st1)
                  (sock_userId sock \<mapsto>
                     set_add (sock_id sock)
                       (case userSockets st1 (sock_userId sock) of None \<Rightarrow> [] | Some ss \<Rightarrow> ss))\<rparr>;
          st3 = updateUserStatus st2 (sock_userId sock) ''online'' now (hSet_ok rp)
      in (st3, []))"

definition connect :: "state \<Rightarrow> socket \<Rightarrow> int \<Rightarrow> replies \<Rightarrow> state \<times> action list" where
  \<comment> \<open>socket.io accepts the authenticated socket, then runs the connection callback\<close>
  "connect st sock now rp = on_connection (io_accept st sock) sock now rp"

definition userSockets_remove :: "state \<Rightarrow> socket \<Rightarrow> int \<Rightarrow> bool \<Rightarrow> state" where
  \<comment> \<open>lines 308-318\<close>
  "userSockets_remove st sock now ok =
     (case userSockets st (sock_userId sock) of
        None \<Rightarrow> st
      | Some userSocketSet \<Rightarrow>
          (let ss = removeAll (sock_id sock) userSocketSet
           in if ss = []
              then (updateUserStatus st (sock_userId sock) ''offline'' now ok)
                     \<lparr>userSockets := (userSockets st)(sock_userId sock := None)\<rparr>
              else st\<lparr>userSockets := (userSockets st)(sock_userId sock \<mapsto> ss)\<rparr>))"

definition on_disconnect_resume ::
  "state \<Rightarrow> socket \<Rightarrow> string option \<Rightarrow> int \<Rightarrow> replies \<Rightarrow> state \<times> action list" where
  \<comment> \<open>the \<^verbatim>\<open>disconnect\<close> handler (lines 301-326) from the point where its \<^verbatim>\<open>leaveRoom\<close> call
      resumes; the handler suspends once more, at line 315 when the user's last socket goes,
      which is not made a piece of its own\<close>
  "on_disconnect_resume st sock susp now rp =
     (let (st1, out) = leaveRoom_resume st sock susp now (sRem_ok rp);
          st2 = userSockets_remove st1 sock now (hSet_ok rp);
          st3 = st2\<lparr>connections := AList.delete (sock_id sock) (connections st2)\<rparr>
      in (st3, out))"

definition on_disconnect :: "state \<Rightarrow> socket \<Rightarrow> int \<Rightarrow> replies \<Rightarrow> state \<times> action list" where
  \<comment> \<open>the \<^verbatim>\<open>disconnect\<close> handler, run undisturbed\<close>
  "on_disconnect st sock now rp =
     (let (st1, susp) = leaveRoom_begin st sock in on_disconnect_resume st1 sock susp now rp)"

definition client_disconnect :: "state \<Rightarrow> socket \<Rightarrow> int \<Rightarrow> replies \<Rightarrow> state \<times> action list" where
  \<comment> \<open>a voluntary disconnect: the client closes, socket.io cleans up and fires the handler\<close>
  "client_disconnect st sock now rp = on_disconnect (io_close st sock) sock now rp"

definition socket_disconnect :: "state \<Rightarrow> socket \<Rightarrow> int \<Rightarrow> replies \<Rightarrow> state \<times> action list" where
  \<comment> \<open>\<^verbatim>\<open>socket.disconnect(true)\<close>: nothing on a closed socket; otherwise the socket is closed
      and the \<^verbatim>\<open>disconnect\<close> handler runs; what the handler emits comes after its \<^verbatim>\<open>await\<close>,
      so after the termination\<close>
  "socket_disconnect st sock now rp =
     (if sockets st (sock_id sock) = None then (st, [])
      else (let (st1, out) = on_disconnect (io_close st sock) sock now rp
            in (st1, Disconnected (sock_id sock) # out)))"

section \<open>Room, audio, moderation, emergency and heartbeat handlers\<close>

definition join_enter :: "state \<Rightarrow> socket \<Rightarrow> string \<Rightarrow> state \<times> bool" where
  \<comment> \<open>lines 89-96, up to the \<^verbatim>\<open>await\<close> of line 99; the flag is \<open>False\<close> when line 90 throws
      because the socket has no entry in \<^verbatim>\<open>connections\<close>\<close>
  "join_enter st sock r =
     (let st2 = socket_join st sock r
      in (case session st2 (sock_id sock) of
            None \<Rightarrow> (st2, False)
          | Some conn \<Rightarrow>
              (let st3 = st2\<lparr>connections :=
                           AList.update (sock_id sock) (conn\<lparr>roomId := Some r\<rparr>)
                             (connections st2)\<rparr>;
                   st4 = st3\<lparr>rooms := (rooms st3)
                           (r \<mapsto> set_add (sock_id sock)
                                  (case rooms st3 r of None \<Rightarrow> [] | Some ms \<Rightarrow> ms))\<rparr>
               in (st4, True))))"

definition join_finish :: "state \<Rightarrow> socket \<Rightarrow> string \<Rightarrow> int \<Rightarrow> bool \<Rightarrow> state \<times> action list" where
  \<comment> \<open>lines 99-123 from the point where \<^verbatim>\<open>sAdd\<close> resolved, or the \<^verbatim>\<open>catch\<close> of lines 125-128
      when it was rejected\<close>
  "join_finish st sock r now ok =
     (if \<not> ok then (st, [Emit (sock_id sock) (ErrorEvent ''Failed to join room'')])
      else
        (let st5 = st\<lparr>room_participants := (room_participants st)
                      (r := set_add (sock_userId sock) (room_participants st r))\<rparr>;
             ps = getRoomParticipants st5 r
         in (st5,
             [Emit (sock_id sock) (RoomJoined r ps now),
              socket_to st5 sock r
                (ParticipantJoined (sock_userId sock) (sock_userName sock) (sock_id sock) now),
              Emit (sock_id sock) (RoomState r ps (length ps) now)])))"

definition room_join ::
  "state \<Rightarrow> socket \<Rightarrow> join_data option \<Rightarrow> int \<Rightarrow> replies \<Rightarrow> state \<times> action list" where
  \<comment> \<open>lines 73-129, run undisturbed; a \<^verbatim>\<open>TypeError\<close> is caught at line 125 and reported as
      \<^verbatim>\<open>Failed to join room\<close>\<close>
  "room_join st sock data now rp =
     (case data of
        None \<Rightarrow> (st, [Emit (sock_id sock) (ErrorEvent ''Failed to join room'')])
      | Some d \<Rightarrow>
          (case j_roomId d of
             None \<Rightarrow> (st, [Emit (sock_id sock) (ErrorEvent ''Room ID required'')])
           | Some r \<Rightarrow>
               if r = [] then (st, [Emit (sock_id sock) (ErrorEvent ''Room ID required'')])
               else
                 (case session st (sock_id sock) of
                    None \<Rightarrow> (st, [Emit (sock_id sock) (ErrorEvent ''Failed to join room'')])
                  | Some conn \<Rightarrow>
                      (let (st1, out1) =
                             (if truthy (roomId conn) then leaveRoom st sock now (sRem_ok rp)
                              else (st, []));
                           (st2, entered) = join_enter st1 sock r
                       in if \<not> entered
                          then (st2, out1 @ [Emit (sock_id sock) (ErrorEvent ''Failed to join room'')])
                          else (let (st3, out3) = join_finish st2 sock r now (sAdd_ok rp)
                                in (st3, out1 @ out3))))))"

text \<open>
  The same handler in the pieces in which it runs when other handlers get in between: it
  suspends at the \<^verbatim>\<open>await\<close> inside \<^verbatim>\<open>leaveRoom\<close> (if the session has a room) and at
  \<^verbatim>\<open>await redisClient.sAdd\<close>.
\<close>

datatype join_wait =
    Await_sRem string "string option"
  | Await_sAdd string

definition room_join_begin ::
  "state \<Rightarrow> socket \<Rightarrow> join_data option \<Rightarrow> state \<times> action list \<times> join_wait option" where
  "room_join_begin st sock data =
     (case data of
        None \<Rightarrow> (st, [Emit (sock_id sock) (ErrorEvent ''Failed to join room'')], None)
      | Some d \<Rightarrow>
          (case j_roomId d of
             None \<Rightarrow> (st, [Emit (sock_id sock) (ErrorEvent ''Room ID required'')], None)
           | Some r \<Rightarrow>
               if r = [] then (st, [Emit (sock_id sock) (ErrorEvent ''Room ID required'')], None)
               else
                 (case session st (sock_id sock) of
                    None \<Rightarrow> (st, [Emit (sock_id sock) (ErrorEvent ''Failed to join room'')], None)
                  | Some conn \<Rightarrow>
                      if truthy (roomId conn)
                      then (let (st1, susp) = leaveRoom_begin st sock
                            in (st1, [], Some (Await_sRem r susp)))
                      else (let (st2, entered) = join_enter st sock r
                            in if entered then (st2, [], Some (Await_sAdd r))
                               else (st2, [Emit (sock_id sock) (ErrorEvent ''Failed to join room'')],
                                     None)))))"

definition room_join_resume ::
  "state \<Rightarrow> socket \<Rightarrow> join_wait \<Rightarrow> int \<Rightarrow> bool \<Rightarrow> state \<times> action list \<times> join_wait option" where
  "room_join_resume st sock w now ok =
     (case w of
        Await_sRem r susp \<Rightarrow>
          (let (st1, out1) = leaveRoom_resume st sock susp now ok;
               (st2, entered) = join_enter st1 sock r
           in if entered then (st2, out1, Some (Await_sAdd r))
              else (st2, out1 @ [Emit (sock_id sock) (ErrorEvent ''Failed to join room'')], None))
      | Await_sAdd r \<Rightarrow>
          (let (st3, out3) = join_finish st sock r now ok in (st3, out3, None)))"

definition room_leave :: "state \<Rightarrow> socket \<Rightarrow> int \<Rightarrow> replies \<Rightarrow> state \<times> action list" where
  \<comment> \<open>lines 132-134\<close>
  "room_leave st sock now rp = leaveRoom st sock now (sRem_ok rp)"

definition audio_toggle :: "state \<Rightarrow> socket \<Rightarrow> toggle_data option \<Rightarrow> int \<Rightarrow> state \<times> action list" where
  \<comment> \<open>lines 141-164; an exception is caught at line 161 and only logged\<close>
  "audio_toggle st sock data now =
     (case data of
        None \<Rightarrow> (st, [])
      | Some d \<Rightarrow>
          (case session st (sock_id sock) of
             None \<Rightarrow> (st, [])
           | Some conn \<Rightarrow>
               (case roomId conn of
                  None \<Rightarrow> (st, [])
                | Some r \<Rightarrow>
                    if r = [] then (st, [])
                    else
                      (let st1 = st\<lparr>connections :=
                                   AList.update (sock_id sock) (conn\<lparr>audioMuted := t_isMuted d\<rparr>)
                                     (connections st)\<rparr>
                       in (st1,
                           [io_to st1 r
                              (AudioChanged (sock_userId sock) (sock_userName sock)
                                 (t_isMuted d) now)])))))"

definition kick_reason :: "string option \<Rightarrow> string" where
  \<comment> \<open>\<^verbatim>\<open>reason || 'No reason provided'\<close>\<close>
  "kick_reason x = (case x of None \<Rightarrow> ''No reason provided''
                    | Some r \<Rightarrow> if r = [] then ''No reason provided'' else r)"

definition admin_kick ::
  "state \<Rightarrow> socket \<Rightarrow> kick_data option \<Rightarrow> int \<Rightarrow> replies \<Rightarrow> replies \<Rightarrow> state \<times> action list" where
  \<comment> \<open>lines 171-205, run undisturbed; an exception is caught at line 202 and only logged.
      \<open>rp\<close> are the replies to the handler's own Redis call (in \<^verbatim>\<open>leaveRoom\<close>), \<open>rd\<close> those to
      the calls of the target's \<^verbatim>\<open>disconnect\<close> handler, which \<^verbatim>\<open>disconnect(true)\<close> starts\<close>
  "admin_kick st sock data now rp rd =
     (if sock_userRole sock \<noteq> ''admin''
      then (st, [Emit (sock_id sock) (ErrorEvent ''Unauthorized'')])
      else
        (case data of
           None \<Rightarrow> (st, [])
         | Some d \<Rightarrow>
             (case (case k_targetSocketId d of None \<Rightarrow> None | Some t \<Rightarrow> sockets st t) of
                None \<Rightarrow> (st, [Emit (sock_id sock) (ErrorEvent ''Participant not found'')])
              | Some targetSocket \<Rightarrow>
                  (let out0 = [Emit (sock_id targetSocket)
                                 (Kicked (sock_userName sock) (kick_reason (k_reason d)) now)];
                       (st1, out1) = leaveRoom st targetSocket now (sRem_ok rp);
                       (st2, out2) = socket_disconnect st1 targetSocket now rd
                   in (st2, out0 @ out1 @ out2)))))"

definition admin_mute :: "state \<Rightarrow> socket \<Rightarrow> mute_data option \<Rightarrow> int \<Rightarrow> state \<times> action list" where
  \<comment> \<open>lines 208-231\<close>
  "admin_mute st sock data now =
     (if sock_userRole sock \<noteq> ''admin''
      then (st, [Emit (sock_id sock) (ErrorEvent ''Unauthorized'')])
      else
        (case data of
           None \<Rightarrow> (st, [])
         | Some d \<Rightarrow>
             (case (case m_targetSocketId d of None \<Rightarrow> None | Some t \<Rightarrow> sockets st t) of
                None \<Rightarrow> (st, [])
              | Some targetSocket \<Rightarrow>
                  (st, [Emit (sock_id targetSocket) (ForcedMute (sock_userName sock) now)]))))"

fun notify_admins :: "state \<Rightarrow> emergencyData \<Rightarrow> string list \<Rightarrow> action list" where
  \<comment> \<open>the loop of lines 262-267\<close>
  "notify_admins st ed [] = []"
| "notify_admins st ed (s # ss) =
     (case session st s of
        None \<Rightarrow> notify_admins st ed ss
      | Some conn \<Rightarrow>
          if userRole conn = ''admin''
          then io_to st s (EmergencyReceived ed) # notify_admins st ed ss
          else notify_admins st ed ss)"

definition emergency_alert ::
  "state \<Rightarrow> socket \<Rightarrow> alert_data option \<Rightarrow> int \<Rightarrow> replies \<Rightarrow> state \<times> action list" where
  \<comment> \<open>lines 237-281, run undisturbed; an exception, and so a rejected \<^verbatim>\<open>lPush\<close>, is caught at
      line 278 and only logged\<close>
  "emergency_alert st sock data now rp =
     (case data of
        None \<Rightarrow> (st, [])
      | Some d \<Rightarrow>
          (case session st (sock_id sock) of
             None \<Rightarrow> (st, [])
           | Some conn \<Rightarrow>
               (case roomId conn of
                  None \<Rightarrow> (st, [])
                | Some r \<Rightarrow>
                    if r = [] then (st, [])
                    else if \<not> lPush_ok rp then (st, [])
                    else
                      (let ed = \<lparr>e_userId = sock_userId sock, e_userName = sock_userName sock,
                                 e_location = a_location d, e_message = a_message d,
                                 e_timestamp = now, e_roomId = r\<rparr>;
                           st1 = st\<lparr>emergencies := ed # emergencies st\<rparr>;
                           out = (case rooms st1 r of
                                    None \<Rightarrow> []
                                  | Some roomSockets \<Rightarrow> notify_admins st1 ed roomSockets)
                       in (st1, out @ [Emit (sock_id sock) (EmergencySent ''received'' now)])))))"

definition ping :: "state \<Rightarrow> socket \<Rightarrow> bool \<Rightarrow> int \<Rightarrow> state \<times> action list" where
  \<comment> \<open>lines 287-295; the flag says whether the client passed an acknowledgment callback\<close>
  "ping st sock callback now =
     (case session st (sock_id sock) of
        None \<Rightarrow> (st, [])
      | Some conn \<Rightarrow>
          (st\<lparr>connections :=
                AList.update (sock_id sock) (conn\<lparr>lastPing := Some now\<rparr>) (connections st)\<rparr>,
           if callback then [Emit (sock_id sock) (Pong now)] else []))"

section \<open>The periodic sweep of stale connections\<close>

definition STALE_THRESHOLD :: int where
  "STALE_THRESHOLD = 5 * 60 * 1000"

definition lastActivity :: "connection \<Rightarrow> int" where
  \<comment> \<open>\<^verbatim>\<open>connection.lastPing || connection.connectedAt\<close>; a \<^verbatim>\<open>Date\<close> is always truthy\<close>
  "lastActivity conn = (case lastPing conn of None \<Rightarrow> connectedAt conn | Some p \<Rightarrow> p)"

definition stale :: "int \<Rightarrow> connection \<Rightarrow> bool" where
  "stale now conn = (now - lastActivity conn > STALE_THRESHOLD)"

text \<open>
  \<^verbatim>\<open>cleanupStaleConnections\<close> (lines 453-475) has no \<^verbatim>\<open>await\<close>: its loop runs to the end in one
  go. For a stale entry whose socket is connected, \<^verbatim>\<open>socket.disconnect(true)\<close> closes the
  socket and starts the \<^verbatim>\<open>disconnect\<close> handler, which runs up to the \<^verbatim>\<open>await\<close> inside
  \<^verbatim>\<open>leaveRoom\<close> and is suspended there; line 470 then deletes the entry. The suspended handlers
  resume afterwards, in the order in which they were started, each with the replies to its
  own Redis calls (\<open>rp\<close> gives them by socket id).
\<close>

fun sweep ::
  "(string \<times> connection) list \<Rightarrow> int \<Rightarrow> state \<Rightarrow> state \<times> (socket \<times> string option) list" where
  "sweep [] now st = (st, [])"
| "sweep ((socketId, conn) # rest) now st =
     (if stale now conn
      then
        (let (st1, started) =
               (case sockets st socketId of
                  None \<Rightarrow> (st, [])
                | Some sock \<Rightarrow>
                    (let (s1, susp) = leaveRoom_begin (io_close st sock) sock
                     in (s1, [(sock, susp)])));
             st2 = st1\<lparr>connections := AList.delete socketId (connections st1)\<rparr>;
             (st3, later) = sweep rest now st2
         in (st3, started @ later))
      else sweep rest now st)"

fun resume_all ::
  "(socket \<times> string option) list \<Rightarrow> int \<Rightarrow> (string \<Rightarrow> replies) \<Rightarrow> state \<Rightarrow>
     state \<times> action list" where
  "resume_all [] now rp st = (st, [])"
| "resume_all ((sock, susp) # ps) now rp st =
     (let (st1, out1) = on_disconnect_resume st sock susp now (rp (sock_id sock));
          (st2, out2) = resume_all ps now rp st1
      in (st2, out1 @ out2))"

definition cleanupStaleConnections ::
  "state \<Rightarrow> int \<Rightarrow> (string \<Rightarrow> replies) \<Rightarrow> state \<times> action list" where
  "cleanupStaleConnections st now rp =
     (let (st1, ps) = sweep (connections st) now st;
          (st2, out) = resume_all ps now rp st1
      in (st2, map (\<lambda>p. Disconnected (sock_id (fst p))) ps @ out))"

section \<open>Serial runs\<close>

datatype client_event =
    RoomJoin "join_data option"
  | RoomLeave
  | AudioToggle "toggle_data option"
  | AdminKick "kick_data option"
  | AdminMute "mute_data option"
  | EmergencyAlert "alert_data option"
  | Ping bool

fun handle ::
  "state \<Rightarrow> socket \<Rightarrow> client_event \<Rightarrow> int \<Rightarrow> replies \<Rightarrow> replies \<Rightarrow> state \<times> action list" where
  \<comment> \<open>\<open>rp\<close> are the replies to the Redis calls of the event's handler, \<open>rd\<close> those to the calls
      of the \<^verbatim>\<open>disconnect\<close> handler that a kick starts\<close>
  "handle st sock (RoomJoin d) now rp rd = room_join st sock d now rp"
| "handle st sock RoomLeave now rp rd = room_leave st sock now rp"
| "handle st sock (AudioToggle d) now rp rd = audio_toggle st sock d now"
| "handle st sock (AdminKick d) now rp rd = admin_kick st sock d now rp rd"
| "handle st sock (AdminMute d) now rp rd = admin_mute st sock d now"
| "handle st sock (EmergencyAlert d) now rp rd = emergency_alert st sock d now rp"
| "handle st sock (Ping cb) now rp rd = ping st sock cb now"

text \<open>
  \<open>serial\<close> holds of the states the server is in between events when it is driven serially:
  it starts with empty maps; socket.io hands the connection callback a socket whose id no
  connected socket has; client events and the voluntary disconnect come from connected
  sockets; the sweep runs at any time; every handler has run to its end before the next
  event is handled; and the \<^verbatim>\<open>sRem\<close> call of a client event's handler has resolved (the
  other Redis calls are free to fail).

  These are not all the states of the server: a handler that is suspended at an \<^verbatim>\<open>await\<close>
  lets the handlers of later events run, and \<^verbatim>\<open>sRem\<close> can be rejected. What the server
  does then is given by the handler pieces above and by the replies; the properties below
  that assume \<open>serial\<close> say nothing about it.
\<close>

inductive serial :: "state \<Rightarrow> bool" where
  serial_init: "serial initial_state"
| serial_connect:
    "serial st \<Longrightarrow> sockets st (sock_id sock) = None \<Longrightarrow>
     serial (fst (connect st sock now rp))"
| serial_event:
    "serial st \<Longrightarrow> sockets st (sock_id sock) = Some sock \<Longrightarrow> sRem_ok rp \<Longrightarrow>
     serial (fst (handle st sock ev now rp rd))"
| serial_disconnect:
    "serial st \<Longrightarrow> sockets st (sock_id sock) = Some sock \<Longrightarrow>
     serial (fst (client_disconnect st sock now rp))"
| serial_sweep: "serial st \<Longrightarrow> serial (fst (cleanupStaleConnections st now rp))"

section \<open>Invariant, measures and scenario states\<close>

text \<open>
  The invariant of serial runs. \<open>inv_registry\<close>: the keys of \<^verbatim>\<open>connections\<close> are distinct; a
  session exists exactly for the connected sockets; a socket is stored under its own id and
  its session carries the socket's user id, name and role. \<open>inv_rooms\<close>: a session with a
  room is a member of that room, whose id is not empty; every room entry is a non-empty set
  without repetition whose members are sessions with that room; the members of a room's
  entry in \<^verbatim>\<open>rooms\<close> are in socket.io's room of that name, which holds besides them at most
  the socket whose id is the name.
\<close>

definition inv_registry :: "state \<Rightarrow> bool" where
  "inv_registry st \<longleftrightarrow>
     distinct (map fst (connections st)) \<and>
     (\<forall>s conn. session st s = Some conn \<longrightarrow> sockets st s \<noteq> None) \<and>
     (\<forall>s sock. sockets st s = Some sock \<longrightarrow>
        sock_id sock = s \<and>
        (\<exists>conn. session st s = Some conn \<and> userId conn = sock_userId sock \<and>
           userName conn = sock_userName sock \<and> userRole conn = sock_userRole sock))"

definition inv_rooms :: "state \<Rightarrow> bool" where
  "inv_rooms st \<longleftrightarrow>
     (\<forall>s conn r. session st s = Some conn \<longrightarrow> roomId conn = Some r \<longrightarrow>
        r \<noteq> [] \<and> s \<in> set (members st r)) \<and>
     (\<forall>r ms. rooms st r = Some ms \<longrightarrow>
        ms \<noteq> [] \<and> distinct ms \<and>
        (\<forall>s\<in>set ms. \<exists>conn. session st s = Some conn \<and> roomId conn = Some r)) \<and>
     (\<forall>r. set (members st r) \<subseteq> set (adapter st r)) \<and>
     (\<forall>r s. s \<in> set (adapter st r) \<longrightarrow> s \<in> set (members st r) \<or> s = r)"

definition invariant :: "state \<Rightarrow> bool" where
  "invariant st \<longleftrightarrow> inv_registry st \<and> inv_rooms st"

text \<open>The four components the invariant speaks about.\<close>

definition core ::
  "state \<Rightarrow> (string \<times> connection) list \<times> (string \<rightharpoonup> string list) \<times> (string \<rightharpoonup> socket) \<times>
     (string \<Rightarrow> string list)" where
  "core st = (connections st, rooms st, sockets st, adapter st)"

text \<open>
  The agreement of registry and index in the design document's words: a session's room is
  \<open>r\<close> exactly when its id is in the membership set of \<open>r\<close>, and the size of a room's set is
  the number of sessions whose room it is.
\<close>

definition registry_index_agree :: "state \<Rightarrow> bool" where
  "registry_index_agree st \<longleftrightarrow>
     (\<forall>s conn. session st s = Some conn \<longrightarrow>
        (\<forall>r. (roomId conn = Some r) = (s \<in> set (members st r)))) \<and>
     (\<forall>r. length (members st r) =
        card {s. \<exists>conn. session st s = Some conn \<and> roomId conn = Some r})"

definition is_admin :: "state \<Rightarrow> string \<Rightarrow> bool" where
  \<comment> \<open>the session registered under this id has the role \<^verbatim>\<open>admin\<close>\<close>
  "is_admin st s = (case session st s of None \<Rightarrow> False | Some conn \<Rightarrow> userRole conn = ''admin'')"



subsection \<open>The scenario of the design document\<close>

text \<open>
  Connections X (an admin) and Y (a member) connect; in \<open>scenario_lobby\<close> neither is in a
  room, in \<open>scenario_alpha\<close> both have joined room \<^verbatim>\<open>alpha\<close>. Every Redis call resolves.
\<close>

definition scenario_X :: socket where
  "scenario_X = \<lparr>sock_id = ''x'', sock_userId = ''u1'', sock_userName = ''X'',
                 sock_userRole = ''admin''\<rparr>"

definition scenario_Y :: socket where
  "scenario_Y = \<lparr>sock_id = ''y'', sock_userId = ''u2'', sock_userName = ''Y'',
                 sock_userRole = ''member''\<rparr>"

definition join_alpha :: "join_data option" where
  "join_alpha = Some \<lparr>j_roomId = Some ''alpha'', j_userName = None\<rparr>"

definition scenario_lobby :: state where
  "scenario_lobby =
     fst (connect (fst (connect initial_state scenario_X 0 all_ok)) scenario_Y 0 all_ok)"

definition scenario_alpha :: state where
  "scenario_alpha =
     fst (handle (fst (handle scenario_lobby scenario_X (RoomJoin join_alpha) 1 all_ok all_ok))
            scenario_Y (RoomJoin join_alpha) 2 all_ok all_ok)"



definition scenario_Z :: socket where
  "scenario_Z = \<lparr>sock_id = ''z'', sock_userId = ''u3'', sock_userName = ''Z'',
                 sock_userRole = ''member''\<rparr>"

definition join_x :: "join_data option" where
  "join_x = Some \<lparr>j_roomId = Some ''x'', j_userName = None\<rparr>"

definition scenario_guest :: state where
  \<comment> \<open>as \<open>scenario_alpha\<close>, after a third connection Z has joined the room whose name is the
      socket id of X\<close>
  "scenario_guest =
     fst (handle (fst (connect scenario_alpha scenario_Z 3 all_ok))
            scenario_Z (RoomJoin join_x) 4 all_ok all_ok)"

definition sRem_rejected :: replies where
  "sRem_rejected = all_ok\<lparr>sRem_ok := False\<rparr>"



subsection \<open>The pieces of a handler in sequence\<close>

definition reply_to :: "join_wait \<Rightarrow> replies \<Rightarrow> bool" where
  \<comment> \<open>the reply to the call a suspended \<^verbatim>\<open>room:join\<close> handler is waiting for\<close>
  "reply_to w rp = (case w of Await_sRem r susp \<Rightarrow> sRem_ok rp | Await_sAdd r \<Rightarrow> sAdd_ok rp)"

definition room_join_pieces ::
  "state \<Rightarrow> socket \<Rightarrow> join_data option \<Rightarrow> int \<Rightarrow> replies \<Rightarrow> state \<times> action list" where
  \<comment> \<open>the pieces of one \<^verbatim>\<open>room:join\<close> handler, run one after the other with nothing in between\<close>
  "room_join_pieces st sock data now rp =
     (let (s1, o1, w1) = room_join_begin st sock data
      in case w1 of
           None \<Rightarrow> (s1, o1)
         | Some a \<Rightarrow>
             (let (s2, o2, w2) = room_join_resume s1 sock a now (reply_to a rp)
              in case w2 of
                   None \<Rightarrow> (s2, o1 @ o2)
                 | Some b \<Rightarrow>
                     (let (s3, o3, w3) = room_join_resume s2 sock b now (reply_to b rp)
                      in (s3, o1 @ o2 @ o3))))"

subsection \<open>Two events of one socket whose handlers overlap\<close>

text \<open>
  In \<open>scenario_alpha\<close> the client of Y sends \<^verbatim>\<open>room:leave\<close> twice, the second before Redis has
  answered the \<^verbatim>\<open>sRem\<close> of the first: both calls of \<^verbatim>\<open>leaveRoom\<close> run up to their \<^verbatim>\<open>await\<close>,
  then both resume, in the order of the calls, both \<^verbatim>\<open>sRem\<close> having resolved.
\<close>

definition overlapping_leaves :: "state \<times> string option \<times> string option \<times> action list" where
  "overlapping_leaves =
     (let (s1, w1) = leaveRoom_begin scenario_alpha scenario_Y;
          (s2, w2) = leaveRoom_begin s1 scenario_Y;
          (s3, o3) = leaveRoom_resume s2 scenario_Y w1 3 True;
          (s4, o4) = leaveRoom_resume s3 scenario_Y w2 4 True
      in (s4, w1, w2, o3 @ o4))"

text \<open>
  In \<open>scenario_alpha\<close> the client of Y sends \<^verbatim>\<open>room:join\<close> for room \<^verbatim>\<open>beta\<close> and then for room
  \<^verbatim>\<open>gamma\<close>, the second before Redis has answered the \<^verbatim>\<open>sRem\<close> of the first. Both handlers
  run up to the \<^verbatim>\<open>await\<close> inside \<^verbatim>\<open>leaveRoom\<close>; Redis answers in the order of the calls, so
  the first handler goes on to its \<^verbatim>\<open>sAdd\<close>, then the second to its own, then the first
  ends, then the second. Every call resolves.
\<close>

definition join_beta :: "join_data option" where
  "join_beta = Some \<lparr>j_roomId = Some ''beta'', j_userName = None\<rparr>"

definition join_gamma :: "join_data option" where
  "join_gamma = Some \<lparr>j_roomId = Some ''gamma'', j_userName = None\<rparr>"

definition resume_join ::
  "state \<Rightarrow> socket \<Rightarrow> join_wait option \<Rightarrow> int \<Rightarrow> bool \<Rightarrow> state \<times> action list \<times> join_wait option" where
  \<comment> \<open>a handler that has ended has nothing to resume\<close>
  "resume_join st sock w now ok =
     (case w of None \<Rightarrow> (st, [], None) | Some w' \<Rightarrow> room_join_resume st sock w' now ok)"

definition overlapping_joins :: "state \<times> join_wait option \<times> join_wait option" where
  "overlapping_joins =
     (let (s1, o1, a1) = room_join_begin scenario_alpha scenario_Y join_beta;
          (s2, o2, b1) = room_join_begin s1 scenario_Y join_gamma;
          (s3, o3, a2) = resume_join s2 scenario_Y a1 3 True;
          (s4, o4, b2) = resume_join s3 scenario_Y b1 4 True;
          (s5, o5, a3) = resume_join s4 scenario_Y a2 5 True;
          (s6, o6, b3) = resume_join s5 scenario_Y b2 6 True
      in (s6, a3, b3))"

section \<open>The invariant is preserved\<close>

lemma session_update [simp]:
  "session (st\<lparr>connections := AList.update k v (connections st)\<rparr>) = (session st)(k \<mapsto> v)"
  by (simp add: session_def fun_eq_iff update_conv')

lemma session_delete [simp]:
  "session (st\<lparr>connections := AList.delete k (connections st)\<rparr>) = (session st)(k := None)"
  by (simp add: session_def fun_eq_iff delete_conv')

lemma session_absent_delete:
  "session st k = None \<Longrightarrow> AList.delete k (connections st) = connections st"
  by (simp add: session_def map_of_eq_None_iff)

lemma invariant_core: "core st = core st' \<Longrightarrow> invariant st' = invariant st"
  by (simp add: core_def invariant_def inv_registry_def inv_rooms_def session_def members_def)

lemma session_core: "core st = core st' \<Longrightarrow> session st' = session st"
  by (simp add: core_def session_def fun_eq_iff)

subsection \<open>The registry and the sockets\<close>

lemma inv_registry_update:
  assumes "inv_registry st" and "session st s = Some c"
    and "userId c' = userId c" and "userName c' = userName c" and "userRole c' = userRole c"
    and "connections st' = AList.update s c' (connections st)" and "sockets st' = sockets st"
  shows "inv_registry st'"
proof -
  have s': "session st' = (session st)(s \<mapsto> c')"
    using assms(6) by (simp add: session_def fun_eq_iff update_conv')
  have "distinct (map fst (connections st'))"
    using assms(1,6) by (simp add: inv_registry_def distinct_update)
  moreover have "\<forall>t conn. session st' t = Some conn \<longrightarrow> sockets st' t \<noteq> None"
    using assms(1,2,7) by (auto simp: s' inv_registry_def)
  moreover have "\<forall>t sock. sockets st' t = Some sock \<longrightarrow>
        sock_id sock = t \<and>
        (\<exists>conn. session st' t = Some conn \<and> userId conn = sock_userId sock \<and>
           userName conn = sock_userName sock \<and> userRole conn = sock_userRole sock)"
    using assms(1-5,7) by (fastforce simp: s' inv_registry_def)
  ultimately show ?thesis by (simp add: inv_registry_def)
qed

lemma inv_registry_connect:
  assumes "inv_registry st" and "sockets st (sock_id sock) = None"
    and "userId c' = sock_userId sock" and "userName c' = sock_userName sock"
    and "userRole c' = sock_userRole sock"
    and "connections st' = AList.update (sock_id sock) c' (connections st)"
    and "sockets st' = (sockets st)(sock_id sock \<mapsto> sock)"
  shows "inv_registry st'"
proof -
  have s': "session st' = (session st)(sock_id sock \<mapsto> c')"
    using assms(6) by (simp add: session_def fun_eq_iff update_conv')
  have "distinct (map fst (connections st'))"
    using assms(1,6) by (simp add: inv_registry_def distinct_update)
  moreover have "\<forall>t conn. session st' t = Some conn \<longrightarrow> sockets st' t \<noteq> None"
    using assms(1,7) by (auto simp: s' inv_registry_def)
  moreover have "\<forall>t sk. sockets st' t = Some sk \<longrightarrow>
        sock_id sk = t \<and>
        (\<exists>conn. session st' t = Some conn \<and> userId conn = sock_userId sk \<and>
           userName conn = sock_userName sk \<and> userRole conn = sock_userRole sk)"
    using assms(1,3,4,5,7) by (auto simp: s' inv_registry_def)
  ultimately show ?thesis by (simp add: inv_registry_def)
qed

lemma inv_registry_remove:
  assumes "inv_registry st"
    and "connections st' = AList.delete s (connections st)"
    and "sockets st' = (sockets st)(s := None)"
  shows "inv_registry st'"
proof -
  have s': "session st' = (session st)(s := None)"
    using assms(2) by (simp add: session_def fun_eq_iff delete_conv')
  have "distinct (map fst (connections st'))"
    using assms(1,2) by (simp add: inv_registry_def distinct_delete)
  moreover have "\<forall>t conn. session st' t = Some conn \<longrightarrow> sockets st' t \<noteq> None"
    using assms(1,3) by (auto simp: s' inv_registry_def)
  moreover have "\<forall>t sk. sockets st' t = Some sk \<longrightarrow>
        sock_id sk = t \<and>
        (\<exists>conn. session st' t = Some conn \<and> userId conn = sock_userId sk \<and>
           userName conn = sock_userName sk \<and> userRole conn = sock_userRole sk)"
    using assms(1,3) by (auto simp: s' inv_registry_def)
  ultimately show ?thesis by (simp add: inv_registry_def)
qed

subsection \<open>The registry and the room index\<close>

lemma inv_rooms_member_session:
  "inv_rooms st \<Longrightarrow> s \<in> set (members st q) \<Longrightarrow> \<exists>c. session st s = Some c \<and> roomId c = Some q"
  by (cases "rooms st q") (auto simp: inv_rooms_def members_def)

lemma inv_rooms_only_room:
  "inv_rooms st \<Longrightarrow> session st s = Some c \<Longrightarrow> s \<in> set (members st q) \<Longrightarrow> roomId c = Some q"
  using inv_rooms_member_session [of st s q] by auto

lemma inv_rooms_leave:
  assumes inv: "inv_rooms st"
    and c: "session st s = Some c" and r: "roomId c = Some r"
    and s': "session st' = (session st)(s \<mapsto> c\<lparr>roomId := None\<rparr>)"
    and r': "rooms st' = rooms_remove r s (rooms st)"
    and a': "adapter st' = (adapter st)(r := removeAll s (adapter st r))"
  shows "inv_rooms st'"
proof -
  from inv c r have rne: "r \<noteq> []" and mem: "s \<in> set (members st r)"
    by (auto simp: inv_rooms_def)
  then obtain ms where ms: "rooms st r = Some ms" "s \<in> set ms"
    by (cases "rooms st r") (auto simp: members_def)
  have other: "\<And>q. q \<noteq> r \<Longrightarrow> rooms st' q = rooms st q"
    using ms by (simp add: r' rooms_remove_def Let_def)
  have here: "rooms st' r = (if removeAll s ms = [] then None else Some (removeAll s ms))"
    using ms by (simp add: r' rooms_remove_def Let_def)
  have mem': "\<And>q. members st' q = (if q = r then removeAll s ms else members st q)"
    using other here by (auto simp: members_def)
  have only: "\<And>q ns. rooms st q = Some ns \<Longrightarrow> s \<in> set ns \<Longrightarrow> q = r"
  proof -
    fix q ns assume "rooms st q = Some ns" and "s \<in> set ns"
    then have "s \<in> set (members st q)" by (simp add: members_def)
    from inv_rooms_only_room [OF inv c this] r show "q = r" by simp
  qed
  have A: "\<forall>t conn q. session st' t = Some conn \<longrightarrow> roomId conn = Some q \<longrightarrow>
        q \<noteq> [] \<and> t \<in> set (members st' q)"
  proof (intro allI impI)
    fix t conn q assume t: "session st' t = Some conn" and q: "roomId conn = Some q"
    from t q have ts: "t \<noteq> s" by (auto simp: s' split: if_splits)
    with t have "session st t = Some conn" by (simp add: s')
    with inv q have "q \<noteq> []" "t \<in> set (members st q)" by (auto simp: inv_rooms_def)
    moreover have "members st r = ms" by (simp add: members_def ms)
    ultimately show "q \<noteq> [] \<and> t \<in> set (members st' q)"
      using ts by (auto simp: mem')
  qed
  have B: "\<forall>q ns. rooms st' q = Some ns \<longrightarrow>
        ns \<noteq> [] \<and> distinct ns \<and>
        (\<forall>t\<in>set ns. \<exists>conn. session st' t = Some conn \<and> roomId conn = Some q)"
  proof (intro allI impI)
    fix q ns assume qn: "rooms st' q = Some ns"
    show "ns \<noteq> [] \<and> distinct ns \<and>
        (\<forall>t\<in>set ns. \<exists>conn. session st' t = Some conn \<and> roomId conn = Some q)"
    proof (cases "q = r")
      case True
      with qn here have ns: "ns = removeAll s ms" "ns \<noteq> []" by (auto split: if_splits)
      from inv ms have "distinct ms"
        "\<forall>t\<in>set ms. \<exists>conn. session st t = Some conn \<and> roomId conn = Some r"
        by (auto simp: inv_rooms_def)
      with ns True show ?thesis by (auto simp: s' distinct_removeAll)
    next
      case False
      with qn other have old: "rooms st q = Some ns" by simp
      with only False have "s \<notin> set ns" by blast
      moreover from inv old have "ns \<noteq> []" "distinct ns"
        "\<forall>t\<in>set ns. \<exists>conn. session st t = Some conn \<and> roomId conn = Some q"
        by (auto simp: inv_rooms_def)
      ultimately show ?thesis by (auto simp: s')
    qed
  qed
  have ad: "\<And>q t. t \<in> set (members st q) \<Longrightarrow> t \<in> set (adapter st q)"
    and da: "\<And>q t. t \<in> set (adapter st q) \<Longrightarrow> t \<noteq> q \<Longrightarrow> t \<in> set (members st q)"
    using inv by (auto simp: inv_rooms_def)
  have mr: "members st r = ms" by (simp add: members_def ms)
  have C: "\<forall>q. set (members st' q) \<subseteq> set (adapter st' q)"
    using ad mr by (auto simp: a' mem')
  have D: "\<forall>q t. t \<in> set (adapter st' q) \<longrightarrow> t \<in> set (members st' q) \<or> t = q"
    using da mr by (auto simp: a' mem')
  from A B C D show ?thesis by (simp add: inv_rooms_def)
qed

lemma inv_rooms_join:
  assumes inv: "inv_rooms st"
    and c: "session st s = Some c" and r: "roomId c = None" and rne: "r \<noteq> []"
    and s': "session st' = (session st)(s \<mapsto> c'\<lparr>roomId := Some r\<rparr>)"
    and r': "rooms st' = (rooms st)(r \<mapsto> set_add s (case rooms st r of None \<Rightarrow> [] | Some ms \<Rightarrow> ms))"
    and a': "adapter st' = (adapter st)(r := set_add s (adapter st r))"
  shows "inv_rooms st'"
proof -
  have nowhere: "\<And>q. s \<notin> set (members st q)"
    using inv_rooms_only_room [OF inv c] r by auto
  have mem': "\<And>q. members st' q = (if q = r then members st r @ [s] else members st q)"
    using nowhere [of r] by (auto simp: members_def r' set_add_def split: option.splits)
  have A: "\<forall>t conn q. session st' t = Some conn \<longrightarrow> roomId conn = Some q \<longrightarrow>
        q \<noteq> [] \<and> t \<in> set (members st' q)"
  proof (intro allI impI)
    fix t conn q assume t: "session st' t = Some conn" and q: "roomId conn = Some q"
    show "q \<noteq> [] \<and> t \<in> set (members st' q)"
    proof (cases "t = s")
      case True
      with t q rne show ?thesis by (auto simp: s' mem')
    next
      case False
      with t have "session st t = Some conn" by (simp add: s')
      with inv q have "q \<noteq> []" "t \<in> set (members st q)" by (auto simp: inv_rooms_def)
      then show ?thesis by (auto simp: mem')
    qed
  qed
  have B: "\<forall>q ns. rooms st' q = Some ns \<longrightarrow>
        ns \<noteq> [] \<and> distinct ns \<and>
        (\<forall>t\<in>set ns. \<exists>conn. session st' t = Some conn \<and> roomId conn = Some q)"
  proof (intro allI impI)
    fix q ns assume qn: "rooms st' q = Some ns"
    show "ns \<noteq> [] \<and> distinct ns \<and>
        (\<forall>t\<in>set ns. \<exists>conn. session st' t = Some conn \<and> roomId conn = Some q)"
    proof (cases "q = r")
      case True
      with qn have ns: "ns = members st r @ [s]"
        using mem' [of r] by (simp add: members_def)
      have "distinct (members st r)"
        using inv by (cases "rooms st r") (auto simp: inv_rooms_def members_def)
      moreover have "\<forall>t\<in>set (members st r). \<exists>conn. session st t = Some conn \<and> roomId conn = Some r"
        using inv_rooms_member_session [OF inv] by blast
      ultimately show ?thesis using ns True nowhere [of r] by (auto simp: s')
    next
      case False
      with qn have old: "rooms st q = Some ns" by (simp add: r')
      then have "s \<notin> set ns" using nowhere [of q] by (simp add: members_def)
      moreover from inv old have "ns \<noteq> []" "distinct ns"
        "\<forall>t\<in>set ns. \<exists>conn. session st t = Some conn \<and> roomId conn = Some q"
        by (auto simp: inv_rooms_def)
      ultimately show ?thesis by (auto simp: s')
    qed
  qed
  have ad: "\<And>q t. t \<in> set (members st q) \<Longrightarrow> t \<in> set (adapter st q)"
    and da: "\<And>q t. t \<in> set (adapter st q) \<Longrightarrow> t \<noteq> q \<Longrightarrow> t \<in> set (members st q)"
    using inv by (auto simp: inv_rooms_def)
  have C: "\<forall>q. set (members st' q) \<subseteq> set (adapter st' q)"
    using ad by (auto simp: a' mem' set_add_def)
  have D: "\<forall>q t. t \<in> set (adapter st' q) \<longrightarrow> t \<in> set (members st' q) \<or> t = q"
    using da by (auto simp: a' mem' set_add_def split: if_splits)
  from A B C D show ?thesis by (simp add: inv_rooms_def)
qed

lemma inv_rooms_same_room:
  assumes inv: "inv_rooms st"
    and c: "roomId c' = (case session st s of None \<Rightarrow> None | Some c \<Rightarrow> roomId c)"
    and s': "session st' = (session st)(s \<mapsto> c')"
    and r': "rooms st' = rooms st"
    and a': "adapter st' = adapter st \<or> adapter st' = (adapter st)(s := set_add s (adapter st s))"
  shows "inv_rooms st'"
proof -
  have mem': "\<And>q. members st' q = members st q" by (simp add: members_def r')
  have A: "\<forall>t conn q. session st' t = Some conn \<longrightarrow> roomId conn = Some q \<longrightarrow>
        q \<noteq> [] \<and> t \<in> set (members st' q)"
    using inv c unfolding inv_rooms_def mem' s'
    by (auto split: if_splits option.splits)
  have B: "\<forall>q ns. rooms st' q = Some ns \<longrightarrow>
        ns \<noteq> [] \<and> distinct ns \<and>
        (\<forall>t\<in>set ns. \<exists>conn. session st' t = Some conn \<and> roomId conn = Some q)"
    using inv c unfolding inv_rooms_def r' s'
    by (fastforce split: option.splits)
  have ad: "\<And>q t. t \<in> set (members st q) \<Longrightarrow> t \<in> set (adapter st q)"
    and da: "\<And>q t. t \<in> set (adapter st q) \<Longrightarrow> t \<noteq> q \<Longrightarrow> t \<in> set (members st q)"
    using inv by (auto simp: inv_rooms_def)
  have C: "\<forall>q. set (members st' q) \<subseteq> set (adapter st' q)"
    using ad a' by (auto simp: mem' set_add_def)
  have D: "\<forall>q t. t \<in> set (adapter st' q) \<longrightarrow> t \<in> set (members st' q) \<or> t = q"
    using da a' by (auto simp: mem' set_add_def split: if_splits)
  from A B C D show ?thesis by (simp add: inv_rooms_def)
qed

lemma inv_rooms_remove_idle:
  assumes inv: "inv_rooms st"
    and c: "\<And>c. session st s = Some c \<Longrightarrow> roomId c = None"
    and s': "session st' = (session st)(s := None)"
    and r': "rooms st' = rooms st"
    and a': "adapter st' = (\<lambda>q. removeAll s (adapter st q))"
  shows "inv_rooms st'"
proof -
  have mem': "\<And>q. members st' q = members st q" by (simp add: members_def r')
  have nowhere: "\<And>q. s \<notin> set (members st q)"
    using inv_rooms_member_session [OF inv] c by fastforce
  have A: "\<forall>t conn q. session st' t = Some conn \<longrightarrow> roomId conn = Some q \<longrightarrow>
        q \<noteq> [] \<and> t \<in> set (members st' q)"
    using inv unfolding inv_rooms_def mem' s' by (auto split: if_splits)
  have B: "\<forall>q ns. rooms st' q = Some ns \<longrightarrow>
        ns \<noteq> [] \<and> distinct ns \<and>
        (\<forall>t\<in>set ns. \<exists>conn. session st' t = Some conn \<and> roomId conn = Some q)"
  proof (intro allI impI)
    fix q ns assume qn: "rooms st' q = Some ns"
    then have old: "rooms st q = Some ns" by (simp add: r')
    then have "s \<notin> set ns" using nowhere [of q] by (simp add: members_def)
    moreover from inv old have "ns \<noteq> []" "distinct ns"
        "\<forall>t\<in>set ns. \<exists>conn. session st t = Some conn \<and> roomId conn = Some q"
        by (auto simp: inv_rooms_def)
    ultimately show "ns \<noteq> [] \<and> distinct ns \<and>
        (\<forall>t\<in>set ns. \<exists>conn. session st' t = Some conn \<and> roomId conn = Some q)"
      by (auto simp: s')
  qed
  have ad: "\<And>q t. t \<in> set (members st q) \<Longrightarrow> t \<in> set (adapter st q)"
    and da: "\<And>q t. t \<in> set (adapter st q) \<Longrightarrow> t \<noteq> q \<Longrightarrow> t \<in> set (members st q)"
    using inv by (auto simp: inv_rooms_def)
  have C: "\<forall>q. set (members st' q) \<subseteq> set (adapter st' q)"
    using ad nowhere by (auto simp: a' mem')
  have D: "\<forall>q t. t \<in> set (adapter st' q) \<longrightarrow> t \<in> set (members st' q) \<or> t = q"
    using da by (auto simp: a' mem')
  from A B C D show ?thesis by (simp add: inv_rooms_def)
qed

lemma inv_rooms_remove_member:
  assumes inv: "inv_rooms st"
    and c: "session st s = Some c" and r: "roomId c = Some r"
    and s': "session st' = (session st)(s := None)"
    and r': "rooms st' = rooms_remove r s (rooms st)"
    and a': "adapter st' = (\<lambda>q. removeAll s (adapter st q))"
  shows "inv_rooms st'"
proof -
  define mid where "mid = st\<lparr>connections := AList.update s (c\<lparr>roomId := None\<rparr>) (connections st),
    rooms := rooms_remove r s (rooms st),
    adapter := (adapter st)(r := removeAll s (adapter st r))\<rparr>"
  have m1: "session mid = (session st)(s \<mapsto> c\<lparr>roomId := None\<rparr>)"
    by (simp add: mid_def session_def fun_eq_iff update_conv')
  have "inv_rooms mid"
    by (rule inv_rooms_leave [OF inv c r m1]) (simp_all add: mid_def)
  moreover have "\<And>k. session mid s = Some k \<Longrightarrow> roomId k = None" by (auto simp: m1)
  moreover have "session st' = (session mid)(s := None)" by (simp add: s' m1)
  moreover have "rooms st' = rooms mid" by (simp add: r' mid_def)
  moreover have "adapter st' = (\<lambda>q. removeAll s (adapter mid q))"
    by (auto simp: a' mid_def fun_eq_iff)
  ultimately show ?thesis by (rule inv_rooms_remove_idle)
qed

subsection \<open>What the handlers do to the state\<close>

lemma session_fields [simp]:
  "session (st\<lparr>rooms := a\<rparr>) = session st"
  "session (st\<lparr>userSockets := b\<rparr>) = session st"
  "session (st\<lparr>sockets := c\<rparr>) = session st"
  "session (st\<lparr>adapter := d\<rparr>) = session st"
  "session (st\<lparr>emergencies := e\<rparr>) = session st"
  "session (st\<lparr>room_participants := f\<rparr>) = session st"
  "session (st\<lparr>user_status := g\<rparr>) = session st"
  by (simp_all add: session_def fun_eq_iff)

lemma session_connections: "session (st\<lparr>connections := cs\<rparr>) = map_of cs"
  by (simp add: session_def fun_eq_iff)

lemma session_fold: "map_of (connections st) = session st"
  by (simp add: session_def fun_eq_iff)

lemmas session_simps = session_connections update_conv' delete_conv' session_fold

lemma leaveRoom_begin_idle:
  assumes "\<And>c r. session st (sock_id sock) = Some c \<Longrightarrow> roomId c = Some r \<Longrightarrow> r = []"
  shows "leaveRoom_begin st sock = (st, None)"
proof (cases "session st (sock_id sock)")
  case None
  then show ?thesis by (simp add: leaveRoom_begin_def)
next
  case (Some c)
  show ?thesis
  proof (cases "roomId c")
    case None
    with Some show ?thesis by (simp add: leaveRoom_begin_def)
  next
    case r: (Some r)
    with Some assms have "r = []" by blast
    with Some r show ?thesis by (simp add: leaveRoom_begin_def)
  qed
qed

lemma leaveRoom_begin_member:
  assumes "session st (sock_id sock) = Some c" and "roomId c = Some r" and "r \<noteq> []"
  shows "leaveRoom_begin st sock =
     (st\<lparr>adapter := (adapter st)(r := removeAll (sock_id sock) (adapter st r)),
         rooms := rooms_remove r (sock_id sock) (rooms st)\<rparr>,
      Some r)"
  using assms by (simp add: leaveRoom_begin_def socket_leave_def Let_def)

lemma leaveRoom_idle:
  assumes "\<And>c r. session st (sock_id sock) = Some c \<Longrightarrow> roomId c = Some r \<Longrightarrow> r = []"
  shows "leaveRoom st sock now ok = (st, [])"
  by (simp add: leaveRoom_def leaveRoom_begin_idle [OF assms] leaveRoom_resume_def)

lemma leaveRoom_member:
  assumes "session st (sock_id sock) = Some c" and "roomId c = Some r" and "r \<noteq> []"
  shows "leaveRoom st sock now True =
     (st\<lparr>adapter := (adapter st)(r := removeAll (sock_id sock) (adapter st r)),
         rooms := rooms_remove r (sock_id sock) (rooms st),
         room_participants := (room_participants st)
           (r := removeAll (sock_userId sock) (room_participants st r)),
         connections := AList.update (sock_id sock) (c\<lparr>roomId := None\<rparr>) (connections st)\<rparr>,
      [Broadcast r (removeAll (sock_id sock) (adapter st r))
         (ParticipantLeft (sock_userId sock) (sock_userName sock) now)])"
  using assms
  by (simp add: leaveRoom_def leaveRoom_begin_member [OF assms] leaveRoom_resume_def Let_def
      io_to_def)


lemma leaveRoom_guard:
  "session st (sock_id sock) = Some conn \<Longrightarrow>
   (if truthy (roomId conn) then leaveRoom st sock now ok else (st, [])) =
     leaveRoom st sock now ok"
proof (cases "truthy (roomId conn)")
  case True
  then show ?thesis by simp
next
  case False
  assume c: "session st (sock_id sock) = Some conn"
  have "leaveRoom st sock now ok = (st, [])"
    by (rule leaveRoom_idle) (use False c in \<open>auto simp: truthy_def\<close>)
  with False show ?thesis by simp
qed

lemma invariant_room_nonempty:
  "invariant st \<Longrightarrow> session st s = Some c \<Longrightarrow> roomId c = Some r \<Longrightarrow> r \<noteq> []"
  by (auto simp: invariant_def inv_rooms_def)

lemma invariant_leaveRoom:
  assumes inv: "invariant st"
  shows "invariant (fst (leaveRoom st sock now True))"
proof (cases "\<exists>c r. session st (sock_id sock) = Some c \<and> roomId c = Some r \<and> r \<noteq> []")
  case True
  then obtain c r where c: "session st (sock_id sock) = Some c" and r: "roomId c = Some r"
    and rne: "r \<noteq> []" by blast
  note eq = leaveRoom_member [OF c r rne]
  have "inv_registry (fst (leaveRoom st sock now True))"
    by (rule inv_registry_update [OF _ c, where c' = "c\<lparr>roomId := None\<rparr>"])
      (use inv in \<open>simp_all add: eq invariant_def session_simps\<close>)
  moreover have "inv_rooms (fst (leaveRoom st sock now True))"
    by (rule inv_rooms_leave [OF _ c r])
      (use inv in \<open>simp_all add: eq invariant_def session_simps\<close>)
  ultimately show ?thesis by (simp add: invariant_def)
next
  case False
  then have "leaveRoom st sock now True = (st, [])" by (rule_tac leaveRoom_idle) auto
  with inv show ?thesis by simp
qed

lemma leaveRoom_session:
  assumes inv: "invariant st" and c: "session st (sock_id sock) = Some c"
  shows "session (fst (leaveRoom st sock now True)) (sock_id sock) = Some (c\<lparr>roomId := None\<rparr>)"
    and "sockets (fst (leaveRoom st sock now True)) = sockets st"
proof -
  have "session (fst (leaveRoom st sock now True)) (sock_id sock) = Some (c\<lparr>roomId := None\<rparr>) \<and>
    sockets (fst (leaveRoom st sock now True)) = sockets st"
  proof (cases "roomId c")
    case None
    with c have "leaveRoom st sock now True = (st, [])" by (rule_tac leaveRoom_idle) auto
    with c None show ?thesis by simp
  next
    case (Some r)
    with inv c have "r \<noteq> []" by (rule_tac invariant_room_nonempty)
    from leaveRoom_member [OF c Some this, where now = now] show ?thesis
      by (simp add: session_simps)
  qed
  then show "session (fst (leaveRoom st sock now True)) (sock_id sock) = Some (c\<lparr>roomId := None\<rparr>)"
    and "sockets (fst (leaveRoom st sock now True)) = sockets st" by simp_all
qed

lemma userSockets_remove_core [simp]: "core (userSockets_remove st sock now ok) = core st"
  by (auto simp: userSockets_remove_def core_def updateUserStatus_def Let_def split: option.splits)

lemma session_io_close [simp]: "session (io_close st sock) = session st"
  by (simp add: io_close_def)

lemma userSockets_remove_fields [simp]:
  "connections (userSockets_remove st sock now ok) = connections st"
  "rooms (userSockets_remove st sock now ok) = rooms st"
  "sockets (userSockets_remove st sock now ok) = sockets st"
  "adapter (userSockets_remove st sock now ok) = adapter st"
  using userSockets_remove_core [of st sock now ok] by (simp_all add: core_def)

lemma disconnect_core:
  "core (fst (on_disconnect (io_close st sock) sock now rp)) =
     (AList.delete (sock_id sock) (connections st),
      (case session st (sock_id sock) of
         None \<Rightarrow> rooms st
       | Some c \<Rightarrow>
           (case roomId c of
              None \<Rightarrow> rooms st
            | Some r \<Rightarrow> if r = [] then rooms st else rooms_remove r (sock_id sock) (rooms st))),
      (sockets st)(sock_id sock := None),
      (\<lambda>q. removeAll (sock_id sock) (adapter st q)))"
proof (cases "\<exists>c r. session st (sock_id sock) = Some c \<and> roomId c = Some r \<and> r \<noteq> []")
  case True
  then obtain c r where c: "session st (sock_id sock) = Some c" and r: "roomId c = Some r"
    and rne: "r \<noteq> []" by blast
  have b: "leaveRoom_begin (io_close st sock) sock =
     ((io_close st sock)\<lparr>adapter := (adapter (io_close st sock))
           (r := removeAll (sock_id sock) (adapter (io_close st sock) r)),
         rooms := rooms_remove r (sock_id sock) (rooms (io_close st sock))\<rparr>,
      Some r)"
    by (rule leaveRoom_begin_member [where c = c]) (simp_all add: c r rne)
  have a: "(\<lambda>q. removeAll (sock_id sock) (adapter st q))
      (r := removeAll (sock_id sock) (adapter st r)) =
      (\<lambda>q. removeAll (sock_id sock) (adapter st q))"
    by (simp add: fun_eq_iff)
  show ?thesis
    unfolding on_disconnect_def b
    by (cases "sRem_ok rp")
      (simp_all add: on_disconnect_resume_def leaveRoom_resume_def Let_def core_def c r rne
        delete_update_same a io_close_def io_to_def)
next
  case False
  have b: "leaveRoom_begin (io_close st sock) sock = (io_close st sock, None)"
    by (rule leaveRoom_begin_idle) (use False in auto)
  have rs: "(case session st (sock_id sock) of
         None \<Rightarrow> rooms st
       | Some c \<Rightarrow>
           (case roomId c of
              None \<Rightarrow> rooms st
            | Some r \<Rightarrow> if r = [] then rooms st else rooms_remove r (sock_id sock) (rooms st)))
      = rooms st"
    using False by (auto split: option.splits)
  show ?thesis
    unfolding on_disconnect_def b rs
    by (simp add: on_disconnect_resume_def leaveRoom_resume_def core_def io_close_def)
qed

lemma sweep_step_core:
  "core ((fst (leaveRoom_begin (io_close st sock) sock))
           \<lparr>connections := AList.delete (sock_id sock)
              (connections (fst (leaveRoom_begin (io_close st sock) sock)))\<rparr>) =
   core (fst (on_disconnect (io_close st sock) sock now rp))"
proof (cases "\<exists>c r. session st (sock_id sock) = Some c \<and> roomId c = Some r \<and> r \<noteq> []")
  case True
  then obtain c r where c: "session st (sock_id sock) = Some c" and r: "roomId c = Some r"
    and rne: "r \<noteq> []" by blast
  have b: "leaveRoom_begin (io_close st sock) sock =
     ((io_close st sock)\<lparr>adapter := (adapter (io_close st sock))
           (r := removeAll (sock_id sock) (adapter (io_close st sock) r)),
         rooms := rooms_remove r (sock_id sock) (rooms (io_close st sock))\<rparr>,
      Some r)"
    by (rule leaveRoom_begin_member [where c = c]) (simp_all add: c r rne)
  show ?thesis
    unfolding disconnect_core b
    by (simp add: core_def c r rne io_close_def fun_eq_iff)
next
  case False
  have b: "leaveRoom_begin (io_close st sock) sock = (io_close st sock, None)"
    by (rule leaveRoom_begin_idle) (use False in auto)
  have rs: "(case session st (sock_id sock) of
         None \<Rightarrow> rooms st
       | Some c \<Rightarrow>
           (case roomId c of
              None \<Rightarrow> rooms st
            | Some r \<Rightarrow> if r = [] then rooms st else rooms_remove r (sock_id sock) (rooms st)))
      = rooms st"
    using False by (auto split: option.splits)
  show ?thesis
    unfolding disconnect_core b rs
    by (simp add: core_def io_close_def)
qed

lemma invariant_removed:
  assumes inv: "invariant st"
    and core: "core st' =
     (AList.delete s (connections st),
      (case session st s of
         None \<Rightarrow> rooms st
       | Some c \<Rightarrow>
           (case roomId c of
              None \<Rightarrow> rooms st
            | Some r \<Rightarrow> if r = [] then rooms st else rooms_remove r s (rooms st))),
      (sockets st)(s := None),
      (\<lambda>q. removeAll s (adapter st q)))"
  shows "invariant st'"
proof -
  from core have f: "connections st' = AList.delete s (connections st)"
    "sockets st' = (sockets st)(s := None)" "adapter st' = (\<lambda>q. removeAll s (adapter st q))"
    by (simp_all add: core_def)
  have s': "session st' = (session st)(s := None)"
    by (simp add: session_def f fun_eq_iff delete_conv')
  have reg: "inv_registry st'"
    by (rule inv_registry_remove [where st = st and s = s])
      (use inv f in \<open>simp_all add: invariant_def\<close>)
  have "inv_rooms st'"
  proof (cases "\<exists>c r. session st s = Some c \<and> roomId c = Some r")
    case True
    then obtain c r where c: "session st s = Some c" and r: "roomId c = Some r" by blast
    with inv have "r \<noteq> []" by (rule_tac invariant_room_nonempty)
    with core c r have rr: "rooms st' = rooms_remove r s (rooms st)" by (simp add: core_def)
    show ?thesis
      by (rule inv_rooms_remove_member [OF _ c r s' rr f(3)])
        (use inv in \<open>simp add: invariant_def\<close>)
  next
    case False
    with core have rr: "rooms st' = rooms st" by (auto simp: core_def split: option.splits)
    have idle: "\<And>c. session st s = Some c \<Longrightarrow> roomId c = None"
      using False by (metis option.exhaust)
    show ?thesis
      by (rule inv_rooms_remove_idle [OF _ idle s' rr f(3)])
        (use inv in \<open>simp_all add: invariant_def\<close>)
  qed
  with reg show ?thesis by (simp add: invariant_def)
qed

lemma invariant_on_disconnect:
  "invariant st \<Longrightarrow> invariant (fst (on_disconnect (io_close st sock) sock now rp))"
  by (rule invariant_removed [OF _ disconnect_core])

lemma invariant_socket_disconnect:
  "invariant st \<Longrightarrow> invariant (fst (socket_disconnect st sock now rp))"
  using invariant_on_disconnect [of st sock now rp]
  by (simp add: socket_disconnect_def split_beta)

lemma invariant_client_disconnect:
  "invariant st \<Longrightarrow> invariant (fst (client_disconnect st sock now rp))"
  by (simp add: client_disconnect_def invariant_on_disconnect)

lemma invariant_session_touch:
  assumes inv: "invariant st" and c: "session st s = Some c"
    and same: "userId c' = userId c" "userName c' = userName c" "userRole c' = userRole c"
      "roomId c' = roomId c"
    and core: "core st' = (AList.update s c' (connections st), rooms st, sockets st, adapter st)"
  shows "invariant st'"
proof -
  from core have f: "connections st' = AList.update s c' (connections st)"
    "rooms st' = rooms st" "sockets st' = sockets st" "adapter st' = adapter st"
    by (simp_all add: core_def)
  have s': "session st' = (session st)(s \<mapsto> c')"
    by (simp add: session_def f fun_eq_iff update_conv')
  have "inv_registry st'"
    by (rule inv_registry_update [OF _ c, where c' = c'])
      (use inv same f in \<open>simp_all add: invariant_def\<close>)
  moreover have "inv_rooms st'"
    by (rule inv_rooms_same_room [OF _ _ s'])
      (use inv same c f in \<open>simp_all add: invariant_def\<close>)
  ultimately show ?thesis by (simp add: invariant_def)
qed

lemma audio_toggle_idle:
  assumes "\<And>c r. session st (sock_id sock) = Some c \<Longrightarrow> roomId c = Some r \<Longrightarrow> r = []"
  shows "audio_toggle st sock d now = (st, [])"
proof (cases d)
  case None
  then show ?thesis by (simp add: audio_toggle_def)
next
  case d: (Some dd)
  show ?thesis
  proof (cases "session st (sock_id sock)")
    case None
    with d show ?thesis by (simp add: audio_toggle_def)
  next
    case (Some c)
    show ?thesis
    proof (cases "roomId c")
      case None
      with d Some show ?thesis by (simp add: audio_toggle_def)
    next
      case r: (Some r)
      with Some assms have "r = []" by blast
      with d Some r show ?thesis by (simp add: audio_toggle_def)
    qed
  qed
qed

lemma audio_toggle_member:
  assumes "session st (sock_id sock) = Some c" and "roomId c = Some r" and "r \<noteq> []"
  shows "audio_toggle st sock (Some dd) now =
     (st\<lparr>connections :=
          AList.update (sock_id sock) (c\<lparr>audioMuted := t_isMuted dd\<rparr>) (connections st)\<rparr>,
      [Broadcast r (adapter st r)
         (AudioChanged (sock_userId sock) (sock_userName sock) (t_isMuted dd) now)])"
  using assms by (simp add: audio_toggle_def Let_def io_to_def)

lemma invariant_audio_toggle:
  assumes inv: "invariant st"
  shows "invariant (fst (audio_toggle st sock d now))"
proof (cases "\<exists>dd c r. d = Some dd \<and> session st (sock_id sock) = Some c \<and> roomId c = Some r \<and> r \<noteq> []")
  case False
  have "fst (audio_toggle st sock d now) = st"
  proof (cases d)
    case None
    then show ?thesis by (simp add: audio_toggle_def)
  next
    case (Some dd)
    with False have "audio_toggle st sock d now = (st, [])"
      by (rule_tac audio_toggle_idle) blast
    then show ?thesis by simp
  qed
  with inv show ?thesis by simp
next
  case True
  then obtain dd c r where d: "d = Some dd" and c: "session st (sock_id sock) = Some c"
    and r: "roomId c = Some r" and rne: "r \<noteq> []" by blast
  show ?thesis
    by (rule invariant_session_touch [OF inv c, where c' = "c\<lparr>audioMuted := t_isMuted dd\<rparr>"])
      (simp_all add: d audio_toggle_member [OF c r rne] core_def)
qed

lemma invariant_ping:
  assumes inv: "invariant st"
  shows "invariant (fst (ping st sock cb now))"
proof (cases "session st (sock_id sock)")
  case None
  then have "fst (ping st sock cb now) = st" by (simp add: ping_def)
  with inv show ?thesis by simp
next
  case (Some c)
  show ?thesis
    by (rule invariant_session_touch [OF inv Some, where c' = "c\<lparr>lastPing := Some now\<rparr>"])
      (simp_all add: ping_def Some core_def)
qed

lemma admin_mute_state: "fst (admin_mute st sock d now) = st"
proof (cases "sock_userRole sock = ''admin''")
  case False
  then show ?thesis by (simp add: admin_mute_def)
next
  case True
  show ?thesis
  proof (cases d)
    case None
    with True show ?thesis by (simp add: admin_mute_def)
  next
    case (Some dd)
    with True show ?thesis
      by (cases "case m_targetSocketId dd of None \<Rightarrow> None | Some t \<Rightarrow> sockets st t")
        (simp_all add: admin_mute_def)
  qed
qed

lemma invariant_admin_mute: "invariant st \<Longrightarrow> invariant (fst (admin_mute st sock d now))"
  by (simp add: admin_mute_state)

lemma emergency_alert_idle:
  assumes "\<And>c r. session st (sock_id sock) = Some c \<Longrightarrow> roomId c = Some r \<Longrightarrow> r = []"
  shows "emergency_alert st sock d now rp = (st, [])"
proof (cases d)
  case None
  then show ?thesis by (simp add: emergency_alert_def)
next
  case d: (Some dd)
  show ?thesis
  proof (cases "session st (sock_id sock)")
    case None
    with d show ?thesis by (simp add: emergency_alert_def)
  next
    case (Some c)
    show ?thesis
    proof (cases "roomId c")
      case None
      with d Some show ?thesis by (simp add: emergency_alert_def)
    next
      case r: (Some r)
      with Some assms have "r = []" by blast
      with d Some r show ?thesis by (simp add: emergency_alert_def)
    qed
  qed
qed

lemma emergency_alert_rejected:
  assumes "\<not> lPush_ok rp"
  shows "emergency_alert st sock d now rp = (st, [])"
  using assms
  by (cases d; cases "session st (sock_id sock)")
    (auto simp: emergency_alert_def split: option.splits)

lemma emergency_alert_member:
  assumes "session st (sock_id sock) = Some c" and "roomId c = Some r" and "r \<noteq> []"
    and "lPush_ok rp"
  shows "emergency_alert st sock (Some dd) now rp =
     (st\<lparr>emergencies :=
          \<lparr>e_userId = sock_userId sock, e_userName = sock_userName sock,
           e_location = a_location dd, e_message = a_message dd,
           e_timestamp = now, e_roomId = r\<rparr> # emergencies st\<rparr>,
      (case rooms st r of
         None \<Rightarrow> []
       | Some roomSockets \<Rightarrow>
           notify_admins
             (st\<lparr>emergencies :=
                  \<lparr>e_userId = sock_userId sock, e_userName = sock_userName sock,
                   e_location = a_location dd, e_message = a_message dd,
                   e_timestamp = now, e_roomId = r\<rparr> # emergencies st\<rparr>)
             \<lparr>e_userId = sock_userId sock, e_userName = sock_userName sock,
              e_location = a_location dd, e_message = a_message dd,
              e_timestamp = now, e_roomId = r\<rparr>
             roomSockets) @
      [Emit (sock_id sock) (EmergencySent ''received'' now)])"
  using assms by (simp add: emergency_alert_def Let_def)

lemma invariant_emergency_alert:
  assumes inv: "invariant st"
  shows "invariant (fst (emergency_alert st sock d now rp))"
proof (cases "\<exists>dd c r. d = Some dd \<and> session st (sock_id sock) = Some c \<and> roomId c = Some r \<and> r \<noteq> []")
  case False
  have "fst (emergency_alert st sock d now rp) = st"
  proof (cases d)
    case None
    then show ?thesis by (simp add: emergency_alert_def)
  next
    case (Some dd)
    with False have "emergency_alert st sock d now rp = (st, [])"
      by (rule_tac emergency_alert_idle) blast
    then show ?thesis by simp
  qed
  with inv show ?thesis by simp
next
  case True
  then obtain dd c r where d: "d = Some dd" and c: "session st (sock_id sock) = Some c"
    and r: "roomId c = Some r" and rne: "r \<noteq> []" by blast
  show ?thesis
  proof (cases "lPush_ok rp")
    case ok: True
    have "core st = core (fst (emergency_alert st sock d now rp))"
      by (simp add: d emergency_alert_member [OF c r rne ok] core_def)
    from invariant_core [OF this] inv show ?thesis by simp
  next
    case False
    with inv show ?thesis by (simp add: emergency_alert_rejected)
  qed
qed

lemma invariant_admin_kick:
  assumes inv: "invariant st" and ok: "sRem_ok rp"
  shows "invariant (fst (admin_kick st sock d now rp rd))"
proof (cases "\<exists>dd t. sock_userRole sock = ''admin'' \<and> d = Some dd \<and>
    (case k_targetSocketId dd of None \<Rightarrow> None | Some t \<Rightarrow> sockets st t) = Some t")
  case False
  have "fst (admin_kick st sock d now rp rd) = st"
  proof (cases "sock_userRole sock = ''admin''")
    case r: False
    then show ?thesis by (simp add: admin_kick_def)
  next
    case r: True
    show ?thesis
    proof (cases d)
      case None
      with r show ?thesis by (simp add: admin_kick_def)
    next
      case (Some dd)
      with False r have "(case k_targetSocketId dd of None \<Rightarrow> None | Some t \<Rightarrow> sockets st t) = None"
        by (cases "case k_targetSocketId dd of None \<Rightarrow> None | Some t \<Rightarrow> sockets st t") auto
      with r Some show ?thesis by (simp add: admin_kick_def)
    qed
  qed
  with inv show ?thesis by simp
next
  case True
  then obtain dd t where a: "sock_userRole sock = ''admin''" and d: "d = Some dd"
    and t: "(case k_targetSocketId dd of None \<Rightarrow> None | Some t \<Rightarrow> sockets st t) = Some t" by blast
  have "fst (admin_kick st sock d now rp rd) =
      fst (socket_disconnect (fst (leaveRoom st t now True)) t now rd)"
    by (simp add: admin_kick_def a d t ok split_beta Let_def)
  then show ?thesis
    using inv by (simp add: invariant_socket_disconnect invariant_leaveRoom)
qed

lemma invariant_connect:
  assumes inv: "invariant st" and fresh: "sockets st (sock_id sock) = None"
  shows "invariant (fst (connect st sock now rp))"
proof -
  let ?c = "\<lparr>userId = sock_userId sock, userName = sock_userName sock,
             userRole = sock_userRole sock, connectedAt = now, roomId = None,
             isActive = True, audioMuted = None, lastPing = None\<rparr>"
  let ?st = "fst (connect st sock now rp)"
  have f: "connections ?st = AList.update (sock_id sock) ?c (connections st)"
    "rooms ?st = rooms st" "sockets ?st = (sockets st)(sock_id sock \<mapsto> sock)"
    "adapter ?st = (adapter st)(sock_id sock := set_add (sock_id sock) (adapter st (sock_id sock)))"
    by (simp_all add: connect_def on_connection_def io_accept_def updateUserStatus_def Let_def)
  have none: "session st (sock_id sock) = None"
    using inv fresh by (cases "session st (sock_id sock)") (auto simp: invariant_def inv_registry_def)
  have s': "session ?st = (session st)(sock_id sock \<mapsto> ?c)"
    by (simp add: session_def f fun_eq_iff update_conv')
  have "inv_registry ?st"
    by (rule inv_registry_connect [of st sock ?c])
      (use inv fresh f in \<open>simp_all add: invariant_def\<close>)
  moreover have "inv_rooms ?st"
    by (rule inv_rooms_same_room [OF _ _ s'])
      (use inv none f in \<open>simp_all add: invariant_def\<close>)
  ultimately show ?thesis by (simp add: invariant_def)
qed

lemma invariant_room_join:
  assumes inv: "invariant st" and ok: "sRem_ok rp"
  shows "invariant (fst (room_join st sock d now rp))"
proof (cases "\<exists>dd r c. d = Some dd \<and> j_roomId dd = Some r \<and> r \<noteq> [] \<and>
    session st (sock_id sock) = Some c")
  case False
  have "fst (room_join st sock d now rp) = st"
  proof (cases d)
    case None
    then show ?thesis by (simp add: room_join_def)
  next
    case (Some dd)
    show ?thesis
    proof (cases "j_roomId dd")
      case None
      with Some show ?thesis by (simp add: room_join_def)
    next
      case r: (Some r)
      show ?thesis
      proof (cases "r = []")
        case True
        with Some r show ?thesis by (simp add: room_join_def)
      next
        case rne: False
        with False Some r have "session st (sock_id sock) = None"
          by (cases "session st (sock_id sock)") auto
        with Some r rne show ?thesis by (simp add: room_join_def)
      qed
    qed
  qed
  with inv show ?thesis by simp
next
  case True
  then obtain dd r c where d: "d = Some dd" and r: "j_roomId dd = Some r" and rne: "r \<noteq> []"
    and c: "session st (sock_id sock) = Some c" by blast
  let ?s = "sock_id sock"
  from ok have ok': "sRem_ok rp = True" by simp
  define st1 where "st1 = fst (leaveRoom st sock now True)"
  define c1 where "c1 = c\<lparr>roomId := None\<rparr>"
  have inv1: "invariant st1" unfolding st1_def by (rule invariant_leaveRoom [OF inv])
  have s1: "session st1 ?s = Some c1" and k1: "sockets st1 = sockets st"
    unfolding st1_def c1_def by (rule leaveRoom_session [OF inv c])+
  have "sockets st1 ?s \<noteq> None"
    using inv c by (auto simp: k1 invariant_def inv_registry_def)
  then obtain sk where live: "sockets st1 ?s = Some sk" by blast
  define st5 where "st5 = fst (room_join st sock d now rp)"
  have f: "connections st5 = AList.update ?s (c1\<lparr>roomId := Some r\<rparr>) (connections st1)"
    "rooms st5 = (rooms st1)(r \<mapsto> set_add ?s (case rooms st1 r of None \<Rightarrow> [] | Some ms \<Rightarrow> ms))"
    "adapter st5 = (adapter st1)(r := set_add ?s (adapter st1 r))"
    "sockets st5 = sockets st1"
    using live s1 unfolding st5_def
    by (simp_all add: room_join_def d r rne c leaveRoom_guard [OF c] ok' split_beta Let_def
        join_enter_def join_finish_def socket_join_def st1_def [symmetric])
  have s5: "session st5 = (session st1)(?s \<mapsto> c1\<lparr>roomId := Some r\<rparr>)"
    by (simp add: session_def f fun_eq_iff update_conv')
  have "inv_registry st5"
    by (rule inv_registry_update [OF _ s1, where c' = "c1\<lparr>roomId := Some r\<rparr>"])
      (use inv1 f in \<open>simp_all add: invariant_def\<close>)
  moreover have "inv_rooms st5"
    by (rule inv_rooms_join [OF _ s1 _ rne s5])
      (use inv1 f rne in \<open>simp_all add: invariant_def c1_def\<close>)
  ultimately show ?thesis by (simp add: invariant_def st5_def)
qed

lemma invariant_handle:
  "invariant st \<Longrightarrow> sRem_ok rp \<Longrightarrow> invariant (fst (handle st sock ev now rp rd))"
  by (cases ev)
    (simp_all add: invariant_room_join invariant_leaveRoom room_leave_def invariant_audio_toggle
      invariant_admin_kick invariant_admin_mute invariant_emergency_alert invariant_ping)

subsection \<open>The sweep\<close>

lemma leaveRoom_begin_connections [simp]:
  "connections (fst (leaveRoom_begin st sock)) = connections st"
proof (cases "\<exists>c r. session st (sock_id sock) = Some c \<and> roomId c = Some r \<and> r \<noteq> []")
  case True
  then obtain c r where "session st (sock_id sock) = Some c" "roomId c = Some r" "r \<noteq> []"
    by blast
  from leaveRoom_begin_member [OF this] show ?thesis by simp
next
  case False
  have "leaveRoom_begin st sock = (st, None)" by (rule leaveRoom_begin_idle) (use False in blast)
  then show ?thesis by simp
qed

lemma io_close_connections [simp]: "connections (io_close st sock) = connections st"
  by (simp add: io_close_def)

lemma sweep_stale_live:
  assumes "stale now conn" and "sockets st k = Some sock"
  shows "sweep ((k, conn) # rest) now st =
     (fst (sweep rest now
        ((fst (leaveRoom_begin (io_close st sock) sock))
           \<lparr>connections := AList.delete k (connections st)\<rparr>)),
      (sock, snd (leaveRoom_begin (io_close st sock) sock)) #
      snd (sweep rest now
        ((fst (leaveRoom_begin (io_close st sock) sock))
           \<lparr>connections := AList.delete k (connections st)\<rparr>)))"
  using assms by (simp add: split_beta Let_def)

lemma sweep_stale_dead:
  assumes "stale now conn" and "sockets st k = None"
  shows "sweep ((k, conn) # rest) now st =
     sweep rest now (st\<lparr>connections := AList.delete k (connections st)\<rparr>)"
  using assms by (simp add: split_beta Let_def)

lemma sweep_fresh:
  "\<not> stale now conn \<Longrightarrow> sweep ((k, conn) # rest) now st = sweep rest now st"
  by simp

lemma sweep_session_none:
  "session st s = None \<Longrightarrow> session (fst (sweep es now st)) s = None"
proof (induction es arbitrary: st)
  case Nil
  then show ?case by simp
next
  case (Cons e es)
  obtain k conn where e: "e = (k, conn)" by (cases e)
  show ?case
  proof (cases "stale now conn")
    case False
    with Cons e show ?thesis by (simp add: sweep_fresh del: sweep.simps)
  next
    case True
    show ?thesis
    proof (cases "sockets st k")
      case None
      have "session (st\<lparr>connections := AList.delete k (connections st)\<rparr>) s = None"
        using Cons.prems by (simp add: session_simps)
      from Cons.IH [OF this] show ?thesis by (simp add: e sweep_stale_dead [OF True None] del: sweep.simps)
    next
      case (Some sock)
      have "session ((fst (leaveRoom_begin (io_close st sock) sock))
           \<lparr>connections := AList.delete k (connections st)\<rparr>) s = None"
        using Cons.prems by (simp add: session_simps)
      from Cons.IH [OF this] show ?thesis by (simp add: e sweep_stale_live [OF True Some] del: sweep.simps)
    qed
  qed
qed

lemma invariant_sweep_step:
  assumes inv: "invariant st" and live: "sockets st k = Some sock"
  shows "invariant ((fst (leaveRoom_begin (io_close st sock) sock))
           \<lparr>connections := AList.delete k (connections st)\<rparr>)"
    and "session ((fst (leaveRoom_begin (io_close st sock) sock))
           \<lparr>connections := AList.delete k (connections st)\<rparr>) (sock_id sock) = None"
proof -
  from inv live have k: "sock_id sock = k" by (auto simp: invariant_def inv_registry_def)
  let ?st2 = "(fst (leaveRoom_begin (io_close st sock) sock))
           \<lparr>connections := AList.delete k (connections st)\<rparr>"
  have "core (fst (on_disconnect (io_close st sock) sock 0 all_ok)) = core ?st2"
    using sweep_step_core [where st = st and sock = sock and now = 0 and rp = all_ok] by (simp add: k)
  from invariant_core [OF this] invariant_on_disconnect [OF inv] show "invariant ?st2" by simp
  show "session ?st2 (sock_id sock) = None" by (simp add: k session_simps)
qed

lemma invariant_sweep_dead:
  assumes inv: "invariant st" and dead: "sockets st k = None"
  shows "st\<lparr>connections := AList.delete k (connections st)\<rparr> = st"
proof -
  from inv dead have "session st k = None"
    by (cases "session st k") (auto simp: invariant_def inv_registry_def)
  then show ?thesis by (simp add: session_absent_delete)
qed

lemma invariant_sweep:
  "invariant st \<Longrightarrow>
   invariant (fst (sweep es now st)) \<and>
   (\<forall>p\<in>set (snd (sweep es now st)). session (fst (sweep es now st)) (sock_id (fst p)) = None)"
proof (induction es arbitrary: st)
  case Nil
  then show ?case by simp
next
  case (Cons e es)
  obtain k conn where e: "e = (k, conn)" by (cases e)
  show ?case
  proof (cases "stale now conn")
    case False
    with Cons e show ?thesis by (simp add: sweep_fresh del: sweep.simps)
  next
    case True
    show ?thesis
    proof (cases "sockets st k")
      case None
      from Cons.IH [OF Cons.prems] show ?thesis
        by (simp add: e sweep_stale_dead [OF True None] invariant_sweep_dead [OF Cons.prems None] del: sweep.simps)
    next
      case (Some sock)
      let ?st2 = "(fst (leaveRoom_begin (io_close st sock) sock))
           \<lparr>connections := AList.delete k (connections st)\<rparr>"
      note step = invariant_sweep_step [OF Cons.prems Some]
      from Cons.IH [OF step(1)] sweep_session_none [OF step(2), of es now]
      show ?thesis by (simp add: e sweep_stale_live [OF True Some] del: sweep.simps)
    qed
  qed
qed

lemma session_userSockets_remove [simp]:
  "session (userSockets_remove st sock now ok) = session st"
  by (simp add: session_def fun_eq_iff)

lemma on_disconnect_resume_core:
  assumes "session st (sock_id sock) = None"
  shows "core (fst (on_disconnect_resume st sock susp now rp)) = core st"
proof -
  have "core (fst (leaveRoom_resume st sock susp now (sRem_ok rp))) = core st"
    using assms by (cases susp) (auto simp: leaveRoom_resume_def Let_def core_def)
  moreover from this
  have "session (fst (leaveRoom_resume st sock susp now (sRem_ok rp))) (sock_id sock) = None"
    using assms session_core [of "fst (leaveRoom_resume st sock susp now (sRem_ok rp))" st]
    by simp
  ultimately show ?thesis
    using session_absent_delete [OF assms]
    by (simp add: on_disconnect_resume_def split_beta Let_def core_def session_absent_delete)
qed

lemma resume_all_core:
  "\<forall>p\<in>set ps. session st (sock_id (fst p)) = None \<Longrightarrow>
   core (fst (resume_all ps now rp st)) = core st"
proof (induction ps arbitrary: st)
  case Nil
  then show ?case by simp
next
  case (Cons p ps)
  obtain sock susp where p: "p = (sock, susp)" by (cases p)
  let ?st1 = "fst (on_disconnect_resume st sock susp now (rp (sock_id sock)))"
  have c1: "core ?st1 = core st"
    by (rule on_disconnect_resume_core) (use Cons.prems in \<open>simp add: p\<close>)
  then have "session ?st1 = session st" by (simp add: core_def session_def fun_eq_iff)
  with Cons.prems have "\<forall>q\<in>set ps. session ?st1 (sock_id (fst q)) = None" by simp
  from Cons.IH [OF this] c1 show ?case by (simp add: p split_beta)
qed

lemma cleanup_core:
  assumes "invariant st"
  shows "core (fst (cleanupStaleConnections st now rp)) = core (fst (sweep (connections st) now st))"
  using invariant_sweep [OF assms, of "connections st" now]
  by (simp add: cleanupStaleConnections_def split_beta resume_all_core)

lemma invariant_cleanup:
  assumes "invariant st"
  shows "invariant (fst (cleanupStaleConnections st now rp))"
  using invariant_core [OF cleanup_core [OF assms, of now rp]]
    invariant_sweep [OF assms, of "connections st" now]
  by simp

subsection \<open>Every state of a serial run satisfies the invariant\<close>

lemma invariant_initial: "invariant initial_state"
  by (simp add: invariant_def inv_registry_def inv_rooms_def initial_state_def session_def
      members_def)

lemma serial_invariant: "serial st \<Longrightarrow> invariant st"
proof (induction rule: serial.induct)
  case serial_init
  show ?case by (rule invariant_initial)
next
  case (serial_connect st sock now rp)
  then show ?case by (simp add: invariant_connect)
next
  case (serial_event st sock rp ev now rd)
  then show ?case by (simp add: invariant_handle)
next
  case (serial_disconnect st sock now rp)
  then show ?case by (simp add: invariant_client_disconnect)
next
  case (serial_sweep st now rp)
  then show ?case by (simp add: invariant_cleanup)
qed

lemma inv_rooms_session_member:
  "inv_rooms st \<Longrightarrow> session st s = Some c \<Longrightarrow> roomId c = Some r \<Longrightarrow> s \<in> set (members st r)"
  unfolding inv_rooms_def by blast

lemma invariant_agree:
  assumes inv: "invariant st"
  shows "registry_index_agree st"
proof -
  from inv have ir: "inv_rooms st" by (simp add: invariant_def)
  have A: "\<forall>s conn. session st s = Some conn \<longrightarrow>
        (\<forall>r. (roomId conn = Some r) = (s \<in> set (members st r)))"
  proof (intro allI impI)
    fix s conn r assume c: "session st s = Some conn"
    show "(roomId conn = Some r) = (s \<in> set (members st r))"
      using inv_rooms_session_member [OF ir c] inv_rooms_only_room [OF ir c] by blast
  qed
  have B: "\<forall>r. length (members st r) =
        card {s. \<exists>conn. session st s = Some conn \<and> roomId conn = Some r}"
  proof
    fix r
    have d: "distinct (members st r)"
      using ir by (cases "rooms st r") (simp_all add: inv_rooms_def members_def)
    have "set (members st r) = {s. \<exists>conn. session st s = Some conn \<and> roomId conn = Some r}"
    proof (intro set_eqI iffI)
      fix s assume "s \<in> set (members st r)"
      from inv_rooms_member_session [OF ir this]
      show "s \<in> {s. \<exists>conn. session st s = Some conn \<and> roomId conn = Some r}" by simp
    next
      fix s assume "s \<in> {s. \<exists>conn. session st s = Some conn \<and> roomId conn = Some r}"
      then obtain conn where "session st s = Some conn" "roomId conn = Some r" by blast
      then show "s \<in> set (members st r)" by (rule inv_rooms_session_member [OF ir])
    qed
    with distinct_card [OF d] show "length (members st r) =
        card {s. \<exists>conn. session st s = Some conn \<and> roomId conn = Some r}" by simp
  qed
  from A B show ?thesis by (simp add: registry_index_agree_def)
qed
subsection \<open>The scenario states\<close>

lemmas handler_defs =
  connect_def on_connection_def room_join_def leaveRoom_def leaveRoom_begin_def
  leaveRoom_resume_def session_def truthy_def socket_join_def socket_leave_def set_add_def
  updateUserStatus_def getRoomParticipants_def rooms_remove_def io_close_def io_accept_def
  io_to_def socket_to_def join_enter_def join_finish_def room_leave_def all_ok_def

lemma scenario_lobby_eq:
  "scenario_lobby =
     \<lparr>connections =
        [(''x'', \<lparr>userId = ''u1'', userName = ''X'', userRole = ''admin'', connectedAt = 0,
                  roomId = None, isActive = True, audioMuted = None, lastPing = None\<rparr>),
         (''y'', \<lparr>userId = ''u2'', userName = ''Y'', userRole = ''member'', connectedAt = 0,
                  roomId = None, isActive = True, audioMuted = None, lastPing = None\<rparr>)],
      rooms = Map.empty,
      userSockets = [''u1'' \<mapsto> [''x''], ''u2'' \<mapsto> [''y'']],
      sockets = [''x'' \<mapsto> scenario_X, ''y'' \<mapsto> scenario_Y],
      adapter = (\<lambda>r. [])(''x'' := [''x''], ''y'' := [''y'']),
      emergencies = [],
      room_participants = (\<lambda>r. []),
      user_status = [''u1'' \<mapsto> (''online'', 0), ''u2'' \<mapsto> (''online'', 0)]\<rparr>"
  by (simp add: scenario_lobby_def initial_state_def handler_defs scenario_X_def scenario_Y_def
      Let_def)

lemma scenario_alpha_eq:
  "scenario_alpha =
     \<lparr>connections =
        [(''x'', \<lparr>userId = ''u1'', userName = ''X'', userRole = ''admin'', connectedAt = 0,
                  roomId = Some ''alpha'', isActive = True, audioMuted = None, lastPing = None\<rparr>),
         (''y'', \<lparr>userId = ''u2'', userName = ''Y'', userRole = ''member'', connectedAt = 0,
                  roomId = Some ''alpha'', isActive = True, audioMuted = None, lastPing = None\<rparr>)],
      rooms = [''alpha'' \<mapsto> [''x'', ''y'']],
      userSockets = [''u1'' \<mapsto> [''x''], ''u2'' \<mapsto> [''y'']],
      sockets = [''x'' \<mapsto> scenario_X, ''y'' \<mapsto> scenario_Y],
      adapter = (\<lambda>r. [])(''x'' := [''x''], ''y'' := [''y''], ''alpha'' := [''x'', ''y'']),
      emergencies = [],
      room_participants = (\<lambda>r. [])(''alpha'' := [''u1'', ''u2'']),
      user_status = [''u1'' \<mapsto> (''online'', 0), ''u2'' \<mapsto> (''online'', 0)]\<rparr>"
  by (simp add: scenario_alpha_def scenario_lobby_eq handler_defs scenario_X_def scenario_Y_def
      join_alpha_def Let_def)

lemma scenario_guest_eq:
  "scenario_guest =
     \<lparr>connections =
        [(''x'', \<lparr>userId = ''u1'', userName = ''X'', userRole = ''admin'', connectedAt = 0,
                  roomId = Some ''alpha'', isActive = True, audioMuted = None, lastPing = None\<rparr>),
         (''y'', \<lparr>userId = ''u2'', userName = ''Y'', userRole = ''member'', connectedAt = 0,
                  roomId = Some ''alpha'', isActive = True, audioMuted = None, lastPing = None\<rparr>),
         (''z'', \<lparr>userId = ''u3'', userName = ''Z'', userRole = ''member'', connectedAt = 3,
                  roomId = Some ''x'', isActive = True, audioMuted = None, lastPing = None\<rparr>)],
      rooms = [''alpha'' \<mapsto> [''x'', ''y''], ''x'' \<mapsto> [''z'']],
      userSockets = [''u1'' \<mapsto> [''x''], ''u2'' \<mapsto> [''y''], ''u3'' \<mapsto> [''z'']],
      sockets = [''x'' \<mapsto> scenario_X, ''y'' \<mapsto> scenario_Y, ''z'' \<mapsto> scenario_Z],
      adapter = (\<lambda>r. [])(''x'' := [''x''], ''y'' := [''y''], ''alpha'' := [''x'', ''y''],
                  ''z'' := [''z''], ''x'' := [''x'', ''z'']),
      emergencies = [],
      room_participants = (\<lambda>r. [])(''alpha'' := [''u1'', ''u2''], ''x'' := [''u3'']),
      user_status = [''u1'' \<mapsto> (''online'', 0), ''u2'' \<mapsto> (''online'', 0),
                     ''u3'' \<mapsto> (''online'', 3)]\<rparr>"
  by (simp add: scenario_guest_def scenario_alpha_eq handler_defs scenario_Z_def
      join_x_def Let_def)

lemma serial_scenario_lobby: "serial scenario_lobby"
  unfolding scenario_lobby_def
  by (intro serial_connect serial_init)
    (simp_all add: initial_state_def handler_defs scenario_X_def scenario_Y_def Let_def)

lemma serial_scenario_alpha: "serial scenario_alpha"
proof -
  have ok: "sRem_ok all_ok" by (simp add: all_ok_def)
  have a: "sockets scenario_lobby (sock_id scenario_X) = Some scenario_X"
    by (simp add: scenario_lobby_eq scenario_X_def)
  have r1: "serial (fst (handle scenario_lobby scenario_X (RoomJoin join_alpha) 1 all_ok all_ok))"
    by (rule serial_event [OF serial_scenario_lobby a ok])
  have b: "sockets (fst (handle scenario_lobby scenario_X (RoomJoin join_alpha) 1 all_ok all_ok))
        (sock_id scenario_Y) = Some scenario_Y"
    by (simp add: scenario_lobby_eq handler_defs scenario_X_def scenario_Y_def
      join_alpha_def Let_def)
  show ?thesis unfolding scenario_alpha_def by (rule serial_event [OF r1 b ok])
qed

lemma serial_scenario_guest: "serial scenario_guest"
proof -
  have ok: "sRem_ok all_ok" by (simp add: all_ok_def)
  have a: "sockets scenario_alpha (sock_id scenario_Z) = None"
    by (simp add: scenario_alpha_eq scenario_Z_def)
  have r1: "serial (fst (connect scenario_alpha scenario_Z 3 all_ok))"
    by (rule serial_connect [OF serial_scenario_alpha a])
  have b: "sockets (fst (connect scenario_alpha scenario_Z 3 all_ok)) (sock_id scenario_Z) =
      Some scenario_Z"
    by (simp add: scenario_alpha_eq handler_defs scenario_Z_def Let_def)
  show ?thesis unfolding scenario_guest_def by (rule serial_event [OF r1 b ok])
qed

lemma serial_registry_index_agree: "serial st \<Longrightarrow> registry_index_agree st"
  by (rule invariant_agree [OF serial_invariant])

subsection \<open>The handler pieces make up the handlers\<close>

lemma room_join_pieces_eq: "room_join_pieces st sock data now rp = room_join st sock data now rp"
proof (cases data)
  case None
  then show ?thesis by (simp add: room_join_pieces_def room_join_begin_def room_join_def)
next
  case (Some d)
  show ?thesis
  proof (cases "\<exists>r c. j_roomId d = Some r \<and> r \<noteq> [] \<and> session st (sock_id sock) = Some c")
    case False
    then show ?thesis
      by (cases "j_roomId d"; cases "session st (sock_id sock)")
        (auto simp: room_join_pieces_def room_join_begin_def room_join_def Some)
  next
    case True
    then obtain r c where r: "j_roomId d = Some r" "r \<noteq> []"
      and c: "session st (sock_id sock) = Some c" by blast
    show ?thesis
    proof (cases "truthy (roomId c)")
      case True
      then show ?thesis
        by (simp add: room_join_pieces_def room_join_begin_def room_join_def Some r c
            room_join_resume_def reply_to_def leaveRoom_def split_beta Let_def)
    next
      case False
      then show ?thesis
        by (simp add: room_join_pieces_def room_join_begin_def room_join_def Some r c
            room_join_resume_def reply_to_def split_beta Let_def)
    qed
  qed
qed
section \<open>Properties of the handlers\<close>

lemma invariant_socket_session:
  assumes "invariant st" and "sockets st s = Some sock" and "session st s = Some conn"
  shows "sock_id sock = s \<and> userId conn = sock_userId sock \<and>
    userName conn = sock_userName sock \<and> userRole conn = sock_userRole sock"
  using assms by (fastforce simp: invariant_def inv_registry_def)

lemma invariant_members_adapter:
  "invariant st \<Longrightarrow> t \<in> set (members st r) \<Longrightarrow> t \<in> set (adapter st r)"
  by (auto simp: invariant_def inv_rooms_def)

lemma invariant_adapter_members:
  "invariant st \<Longrightarrow> t \<in> set (adapter st r) \<Longrightarrow> t \<in> set (members st r) \<or> t = r"
  by (auto simp: invariant_def inv_rooms_def)

lemma invariant_member: "invariant st \<Longrightarrow> session st s = Some c \<Longrightarrow> roomId c = Some r \<Longrightarrow>
    s \<in> set (members st r)"
  by (simp add: invariant_def inv_rooms_session_member)




lemma session_alpha:
  "session scenario_alpha ''x'' =
     Some \<lparr>userId = ''u1'', userName = ''X'', userRole = ''admin'', connectedAt = 0,
           roomId = Some ''alpha'', isActive = True, audioMuted = None, lastPing = None\<rparr>"
  "session scenario_alpha ''y'' =
     Some \<lparr>userId = ''u2'', userName = ''Y'', userRole = ''member'', connectedAt = 0,
           roomId = Some ''alpha'', isActive = True, audioMuted = None, lastPing = None\<rparr>"
  "sockets scenario_alpha ''x'' = Some scenario_X"
  "sockets scenario_alpha ''y'' = Some scenario_Y"
  "members scenario_alpha ''alpha'' = [''x'', ''y'']"
  by (simp_all add: scenario_alpha_eq session_def members_def)

lemma session_lobby:
  "session scenario_lobby ''x'' =
     Some \<lparr>userId = ''u1'', userName = ''X'', userRole = ''admin'', connectedAt = 0,
           roomId = None, isActive = True, audioMuted = None, lastPing = None\<rparr>"
  "session scenario_lobby ''y'' =
     Some \<lparr>userId = ''u2'', userName = ''Y'', userRole = ''member'', connectedAt = 0,
           roomId = None, isActive = True, audioMuted = None, lastPing = None\<rparr>"
  "sockets scenario_lobby ''x'' = Some scenario_X"
  "sockets scenario_lobby ''y'' = Some scenario_Y"
  by (simp_all add: scenario_lobby_eq session_def)

lemma scenario_ids [simp]:
  "sock_id scenario_X = ''x''" "sock_id scenario_Y = ''y''" "sock_id scenario_Z = ''z''"
  by (simp_all add: scenario_X_def scenario_Y_def scenario_Z_def)

text \<open>
  C1, as stated: in every state the server reaches, a session's \<^verbatim>\<open>roomId\<close> is \<open>r\<close> exactly when
  its socket id is in the membership set of \<open>r\<close>. \<^verbatim>\<open>leaveRoom\<close> takes the socket out of the
  set before its \<^verbatim>\<open>await\<close> and resets \<^verbatim>\<open>roomId\<close> only after it, so the two disagree as soon
  as something happens in between or the awaited call is rejected. When the \<^verbatim>\<open>room:join\<close>
  handlers for \<^verbatim>\<open>beta\<close> and \<^verbatim>\<open>gamma\<close> of one socket overlap, both handlers run to their end
  and leave the socket in the sets of both rooms with \<^verbatim>\<open>roomId\<close> \<^verbatim>\<open>gamma\<close>. When the \<^verbatim>\<open>sRem\<close> of
  a single \<^verbatim>\<open>room:leave\<close> is rejected, the session keeps \<^verbatim>\<open>roomId\<close> \<^verbatim>\<open>alpha\<close> and is no longer
  in the set of \<^verbatim>\<open>alpha\<close>.
\<close>

theorem registry_index_disagree:
  "snd overlapping_joins = (None, None) \<and>
   map_option roomId (session (fst overlapping_joins) ''y'') = Some (Some ''gamma'') \<and>
   members (fst overlapping_joins) ''beta'' = [''y''] \<and>
   members (fst overlapping_joins) ''gamma'' = [''y''] \<and>
   map_option roomId (session (fst (room_leave scenario_alpha scenario_Y 3 sRem_rejected)) ''y'') =
     Some (Some ''alpha'') \<and>
   members (fst (room_leave scenario_alpha scenario_Y 3 sRem_rejected)) ''alpha'' = [''x'']"
  by (simp add: overlapping_joins_def room_join_begin_def room_join_resume_def resume_join_def
      join_beta_def join_gamma_def scenario_alpha_eq handler_defs scenario_Y_def members_def
      sRem_rejected_def Let_def)

text \<open>
  C2. \<^verbatim>\<open>admin:kick\<close> and \<^verbatim>\<open>admin:mute\<close> from a caller that is not an admin give the caller
  the error \<^verbatim>\<open>Unauthorized\<close>, whatever the payload (also an undefined one) and whatever Redis
  would reply; the whole state (registry, room index, \<^verbatim>\<open>userSockets\<close> and all the rest) is
  unchanged and nothing is sent to anybody else. The handlers test \<^verbatim>\<open>socket.userRole\<close>, from
  which line 53 copied the role of the session: the first part is about that role in any
  state, the second about the role stored in the caller's session in a state of a serial run.
\<close>

theorem non_admin_moderation_rejected:
  "(sock_userRole sock \<noteq> ''admin'' \<longrightarrow>
      admin_kick st sock kd now rp rd =
        (st, [Emit (sock_id sock) (ErrorEvent ''Unauthorized'')]) \<and>
      admin_mute st sock md now = (st, [Emit (sock_id sock) (ErrorEvent ''Unauthorized'')])) \<and>
   (serial st \<longrightarrow> sockets st (sock_id sock) = Some sock \<longrightarrow>
    session st (sock_id sock) = Some conn \<longrightarrow> userRole conn \<noteq> ''admin'' \<longrightarrow>
      admin_kick st sock kd now rp rd =
        (st, [Emit (sock_id sock) (ErrorEvent ''Unauthorized'')]) \<and>
      admin_mute st sock md now = (st, [Emit (sock_id sock) (ErrorEvent ''Unauthorized'')]))"
proof -
  have direct: "sock_userRole sock \<noteq> ''admin'' \<Longrightarrow>
      admin_kick st sock kd now rp rd =
        (st, [Emit (sock_id sock) (ErrorEvent ''Unauthorized'')]) \<and>
      admin_mute st sock md now = (st, [Emit (sock_id sock) (ErrorEvent ''Unauthorized'')])"
    by (simp add: admin_kick_def admin_mute_def)
  have "sock_userRole sock \<noteq> ''admin''"
    if "serial st" and "sockets st (sock_id sock) = Some sock"
      and "session st (sock_id sock) = Some conn" and "userRole conn \<noteq> ''admin''"
    using invariant_socket_session [OF serial_invariant [OF that(1)] that(2,3)] that(4)
    by simp
  with direct show ?thesis by blast
qed

theorem non_admin_moderation_rejected_witness:
  "sock_userRole scenario_Y \<noteq> ''admin'' \<and>
   serial scenario_alpha \<and> sockets scenario_alpha (sock_id scenario_Y) = Some scenario_Y \<and>
   userRole (the (session scenario_alpha (sock_id scenario_Y))) \<noteq> ''admin'' \<and>
   admin_kick scenario_alpha scenario_Y
       (Some \<lparr>k_targetSocketId = Some ''x'', k_reason = Some ''spite''\<rparr>) 3 all_ok sRem_rejected =
     (scenario_alpha, [Emit ''y'' (ErrorEvent ''Unauthorized'')]) \<and>
   admin_mute scenario_alpha scenario_Y (Some \<lparr>m_targetSocketId = Some ''x''\<rparr>) 3 =
     (scenario_alpha, [Emit ''y'' (ErrorEvent ''Unauthorized'')])"
proof -
  have h: "sock_userRole scenario_Y \<noteq> ''admin''" by (simp add: scenario_Y_def)
  have s: "sockets scenario_alpha (sock_id scenario_Y) = Some scenario_Y"
    by (simp add: session_alpha)
  have r: "userRole (the (session scenario_alpha (sock_id scenario_Y))) \<noteq> ''admin''"
    by (simp add: session_alpha)
  from non_admin_moderation_rejected [where sock = scenario_Y and st = scenario_alpha
      and kd = "Some \<lparr>k_targetSocketId = Some ''x'', k_reason = Some ''spite''\<rparr>" and now = 3
      and md = "Some \<lparr>m_targetSocketId = Some ''x''\<rparr>" and rp = all_ok
      and rd = sRem_rejected] h
  have "admin_kick scenario_alpha scenario_Y
       (Some \<lparr>k_targetSocketId = Some ''x'', k_reason = Some ''spite''\<rparr>) 3 all_ok sRem_rejected =
     (scenario_alpha, [Emit (sock_id scenario_Y) (ErrorEvent ''Unauthorized'')])"
    and "admin_mute scenario_alpha scenario_Y (Some \<lparr>m_targetSocketId = Some ''x''\<rparr>) 3 =
     (scenario_alpha, [Emit (sock_id scenario_Y) (ErrorEvent ''Unauthorized'')])"
    by blast+
  with h serial_scenario_alpha s r show ?thesis by simp
qed

text \<open>
  C5, as stated: a session that is in no room and raises an emergency is told so with an
  error event. The code returns silently at line 242; in the lobby scenario Y, whose
  \<^verbatim>\<open>roomId\<close> is \<^verbatim>\<open>null\<close>, gets no event at all.
\<close>

theorem emergency_not_in_room_counterexample:
  "map_option roomId (session scenario_lobby (sock_id scenario_Y)) = Some None \<and>
   snd (emergency_alert scenario_lobby scenario_Y
          (Some \<lparr>a_location = None, a_message = Some ''help''\<rparr>) 5 all_ok) = []"
  by (simp add: session_lobby emergency_alert_def)

text \<open>
  C5, amended: for a session whose \<^verbatim>\<open>roomId\<close> is \<^verbatim>\<open>null\<close>, \<^verbatim>\<open>emergency:alert\<close> is a silent
  no-op: the state is unchanged (nothing is appended to the queue) and no event is sent,
  neither \<^verbatim>\<open>emergency:received\<close> nor \<^verbatim>\<open>emergency:sent\<close> nor an error to the caller.
\<close>

theorem emergency_not_in_room_silent:
  "session st (sock_id sock) = Some conn \<Longrightarrow> roomId conn = None \<Longrightarrow>
     emergency_alert st sock d now rp = (st, [])"
  by (rule emergency_alert_idle) simp

theorem emergency_not_in_room_silent_witness:
  "session scenario_lobby (sock_id scenario_Y) =
     Some \<lparr>userId = ''u2'', userName = ''Y'', userRole = ''member'', connectedAt = 0,
           roomId = None, isActive = True, audioMuted = None, lastPing = None\<rparr> \<and>
   emergency_alert scenario_lobby scenario_Y
       (Some \<lparr>a_location = None, a_message = Some ''help''\<rparr>) 5 all_ok = (scenario_lobby, [])"
proof -
  have h: "session scenario_lobby (sock_id scenario_Y) =
     Some \<lparr>userId = ''u2'', userName = ''Y'', userRole = ''member'', connectedAt = 0,
           roomId = None, isActive = True, audioMuted = None, lastPing = None\<rparr>"
    by (simp add: session_lobby)
  from emergency_not_in_room_silent [OF h] h show ?thesis by simp
qed

text \<open>
  C7, as stated: registering a socket id that is already in the registry fails and leaves
  the existing entry alone. The connection callback has no such check: in the scenario,
  where X is in room \<^verbatim>\<open>alpha\<close>, running it again for X's id emits nothing and replaces X's
  entry.
\<close>

theorem duplicate_connection_counterexample:
  "session scenario_alpha (sock_id scenario_X) \<noteq> None \<and>
   snd (on_connection scenario_alpha scenario_X 9 all_ok) = [] \<and>
   session (fst (on_connection scenario_alpha scenario_X 9 all_ok)) (sock_id scenario_X) \<noteq>
     session scenario_alpha (sock_id scenario_X)"
  by (simp add: scenario_alpha_eq scenario_X_def session_def on_connection_def
      updateUserStatus_def Let_def)

text \<open>
  C7, amended: registering a connection never fails and emits nothing, also when the id is
  already in the registry; the entry under that id then is a fresh session built from the
  socket (no room, no mute flag, no heartbeat, connected now), whatever was there before.
\<close>

theorem duplicate_connection_overwrites:
  "snd (on_connection st sock now rp) = [] \<and>
   session (fst (on_connection st sock now rp)) (sock_id sock) =
     Some \<lparr>userId = sock_userId sock, userName = sock_userName sock,
           userRole = sock_userRole sock, connectedAt = now, roomId = None,
           isActive = True, audioMuted = None, lastPing = None\<rparr>"
  by (simp add: on_connection_def updateUserStatus_def Let_def session_simps)

lemma leave_twice_serial:
  assumes "session st (sock_id sock) = Some conn" and "roomId conn = Some r" and "r \<noteq> []"
    and "sRem_ok rp"
  shows "snd (room_leave st sock now rp) =
      [Broadcast r (removeAll (sock_id sock) (adapter st r))
         (ParticipantLeft (sock_userId sock) (sock_userName sock) now)] \<and>
    room_leave (fst (room_leave st sock now rp)) sock later rq =
      (fst (room_leave st sock now rp), [])"
proof -
  note first = leaveRoom_member [OF assms(1-3), where now = now]
  have "session (fst (leaveRoom st sock now True)) (sock_id sock) =
      Some (conn\<lparr>roomId := None\<rparr>)"
    by (simp add: first session_simps)
  then have "leaveRoom (fst (leaveRoom st sock now True)) sock later (sRem_ok rq) =
      (fst (leaveRoom st sock now True), [])"
    by (rule_tac leaveRoom_idle) simp
  with first assms(4) show ?thesis by (simp add: room_leave_def)
qed

text \<open>
  C8, as stated: two \<^verbatim>\<open>room:leave\<close> in a row of a session in a room give one
  \<^verbatim>\<open>participant:left\<close> fan-out, the second call finding \<^verbatim>\<open>roomId\<close> \<^verbatim>\<open>null\<close>. \<^verbatim>\<open>roomId\<close> is reset
  only after the \<^verbatim>\<open>await\<close> of the first call, so a second call that starts before Redis has
  answered passes the guard of line 357 as well: in the scenario both calls of Y go on to
  line 380, and X is sent \<^verbatim>\<open>participant:left\<close> twice.
\<close>

theorem leave_twice_two_fanouts:
  "overlapping_leaves =
     (fst (room_leave scenario_alpha scenario_Y 3 all_ok), Some ''alpha'', Some ''alpha'',
      [Broadcast ''alpha'' [''x''] (ParticipantLeft ''u2'' ''Y'' 3),
       Broadcast ''alpha'' [''x''] (ParticipantLeft ''u2'' ''Y'' 4)])"
  by (simp add: overlapping_leaves_def scenario_alpha_eq handler_defs scenario_Y_def Let_def)






text \<open>
  C9, as stated: from a session in a room, \<^verbatim>\<open>audio:toggle\<close> delivers
  \<^verbatim>\<open>participant:audio-changed\<close> to the room. The handler destructures its payload first
  (line 143); when the client sends the event without one, that throws, the \<^verbatim>\<open>catch\<close> of line
  161 logs, and nothing is recorded or delivered, although Y is in room \<^verbatim>\<open>alpha\<close>.
\<close>

theorem audio_toggle_without_payload:
  "map_option roomId (session scenario_alpha (sock_id scenario_Y)) = Some (Some ''alpha'') \<and>
   audio_toggle scenario_alpha scenario_Y None 3 = (scenario_alpha, [])"
  by (simp add: session_alpha audio_toggle_def)

text \<open>
  C9, amended. \<^verbatim>\<open>audio:toggle\<close> with an object payload, from a socket whose session has room
  \<open>r\<close>, records the payload's flag on that session and makes one emit of
  \<^verbatim>\<open>participant:audio-changed\<close>, with the socket's user id and name and the new flag, to the
  socket.io room \<open>r\<close>; its receivers are the sockets in that room. Without a payload the
  handler changes nothing and sends nothing. From a session with no room it changes nothing
  and sends nothing, whatever the payload. This holds in every state. In a state of a serial
  run, for a connected socket, the socket's user id and name are the session's, and the
  sockets in the socket.io room \<open>r\<close> are all members of \<open>r\<close>, the sender among them, and
  besides them at most the socket whose id is \<open>r\<close>.
\<close>

theorem audio_toggle_fanout:
  assumes "session st (sock_id sock) = Some conn"
  shows "(roomId conn = Some r \<and> r \<noteq> [] \<longrightarrow>
       audio_toggle st sock (Some d) now =
         (st\<lparr>connections :=
              AList.update (sock_id sock) (conn\<lparr>audioMuted := t_isMuted d\<rparr>) (connections st)\<rparr>,
          [Broadcast r (adapter st r)
             (AudioChanged (sock_userId sock) (sock_userName sock) (t_isMuted d) now)]) \<and>
       audio_toggle st sock None now = (st, [])) \<and>
    (roomId conn = None \<longrightarrow> audio_toggle st sock data now = (st, [])) \<and>
    (serial st \<and> sockets st (sock_id sock) = Some sock \<and> roomId conn = Some r \<longrightarrow>
       r \<noteq> [] \<and> sock_userId sock = userId conn \<and> sock_userName sock = userName conn \<and>
       set (members st r) \<subseteq> set (adapter st r) \<and>
       sock_id sock \<in> set (members st r) \<and>
       (\<forall>t\<in>set (adapter st r). t \<in> set (members st r) \<or> t = r))"
proof -
  have idle: "roomId conn = None \<Longrightarrow> audio_toggle st sock data now = (st, [])"
    by (rule audio_toggle_idle) (use assms in simp)
  have none: "audio_toggle st sock None now = (st, [])" by (simp add: audio_toggle_def)
  have member: "audio_toggle st sock (Some d) now =
         (st\<lparr>connections :=
              AList.update (sock_id sock) (conn\<lparr>audioMuted := t_isMuted d\<rparr>) (connections st)\<rparr>,
          [Broadcast r (adapter st r)
             (AudioChanged (sock_userId sock) (sock_userName sock) (t_isMuted d) now)])"
    if "roomId conn = Some r" and "r \<noteq> []"
    by (rule audio_toggle_member [OF assms that])
  have ser: "r \<noteq> [] \<and> sock_userId sock = userId conn \<and> sock_userName sock = userName conn \<and>
       set (members st r) \<subseteq> set (adapter st r) \<and>
       sock_id sock \<in> set (members st r) \<and>
       (\<forall>t\<in>set (adapter st r). t \<in> set (members st r) \<or> t = r)"
    if "serial st" and live: "sockets st (sock_id sock) = Some sock" and r: "roomId conn = Some r"
  proof -
    from that(1) have inv: "invariant st" by (rule serial_invariant)
    have "r \<noteq> []" by (rule invariant_room_nonempty [OF inv assms r])
    moreover have "sock_userId sock = userId conn" "sock_userName sock = userName conn"
      using invariant_socket_session [OF inv live assms] by simp_all
    moreover have "set (members st r) \<subseteq> set (adapter st r)"
      using invariant_members_adapter [OF inv] by blast
    moreover have "\<forall>t\<in>set (adapter st r). t \<in> set (members st r) \<or> t = r"
      using invariant_adapter_members [OF inv] by blast
    moreover have "sock_id sock \<in> set (members st r)"
      by (rule invariant_member [OF inv assms r])
    ultimately show ?thesis by blast
  qed
  from idle none member ser show ?thesis by blast
qed

theorem audio_toggle_fanout_witness:
  "serial scenario_guest \<and> sockets scenario_guest (sock_id scenario_Z) = Some scenario_Z \<and>
   roomId (the (session scenario_guest (sock_id scenario_Z))) = Some ''x'' \<and>
   audio_toggle scenario_guest scenario_Z (Some \<lparr>t_isMuted = Some True\<rparr>) 5 =
     (scenario_guest\<lparr>connections :=
        AList.update ''z''
          \<lparr>userId = ''u3'', userName = ''Z'', userRole = ''member'', connectedAt = 3,
           roomId = Some ''x'', isActive = True, audioMuted = Some True, lastPing = None\<rparr>
          (connections scenario_guest)\<rparr>,
      [Broadcast ''x'' [''x'', ''z''] (AudioChanged ''u3'' ''Z'' (Some True) 5)]) \<and>
   members scenario_guest ''x'' = [''z''] \<and>
   audio_toggle scenario_guest scenario_Z None 5 = (scenario_guest, []) \<and>
   roomId (the (session scenario_lobby (sock_id scenario_Y))) = None \<and>
   audio_toggle scenario_lobby scenario_Y (Some \<lparr>t_isMuted = Some True\<rparr>) 3 =
     (scenario_lobby, [])"
proof -
  have a: "sockets scenario_guest (sock_id scenario_Z) = Some scenario_Z"
    and b: "session scenario_guest (sock_id scenario_Z) =
     Some \<lparr>userId = ''u3'', userName = ''Z'', userRole = ''member'', connectedAt = 3,
           roomId = Some ''x'', isActive = True, audioMuted = None, lastPing = None\<rparr>"
    and m: "members scenario_guest ''x'' = [''z'']"
    and ad: "adapter scenario_guest ''x'' = [''x'', ''z'']"
    by (simp_all add: scenario_guest_eq session_def members_def)
  have z: "sock_userId scenario_Z = ''u3''" "sock_userName scenario_Z = ''Z''"
    by (simp_all add: scenario_Z_def)
  have d: "session scenario_lobby (sock_id scenario_Y) =
     Some \<lparr>userId = ''u2'', userName = ''Y'', userRole = ''member'', connectedAt = 0,
           roomId = None, isActive = True, audioMuted = None, lastPing = None\<rparr>"
    by (simp add: session_lobby)
  from audio_toggle_fanout [OF b,
      where r = "''x''" and d = "\<lparr>t_isMuted = Some True\<rparr>" and now = 5]
    audio_toggle_fanout [OF d,
      where data = "Some \<lparr>t_isMuted = Some True\<rparr>" and now = 3]
    serial_scenario_guest a b d m ad z
  show ?thesis by simp
qed







lemma is_admin_emergencies [simp]: "is_admin (st\<lparr>emergencies := e\<rparr>) = is_admin st"
  by (simp add: is_admin_def fun_eq_iff)


lemma notify_admins_emergencies [simp]:
  "notify_admins (st\<lparr>emergencies := e\<rparr>) ed ms = notify_admins st ed ms"
  by (induction ms) (simp_all add: io_to_def split: option.splits)











section \<open>The sweep against the voluntary disconnect\<close>



lemma members_fields [simp]:
  "members (st\<lparr>connections := a\<rparr>) = members st"
  "members (st\<lparr>adapter := d\<rparr>) = members st"
  "members (st\<lparr>room_participants := f\<rparr>) = members st"
  "members (io_close st sock) = members st"
  by (simp_all add: members_def fun_eq_iff io_close_def)




lemma leaveRoom_begin_sockets [simp]:
  "sockets (fst (leaveRoom_begin st sock)) = sockets st"
proof (cases "\<exists>c q. session st (sock_id sock) = Some c \<and> roomId c = Some q \<and> q \<noteq> []")
  case True
  then obtain c q where "session st (sock_id sock) = Some c" "roomId c = Some q" "q \<noteq> []"
    by blast
  from leaveRoom_begin_member [OF this] show ?thesis by simp
next
  case False
  have "leaveRoom_begin st sock = (st, None)"
    by (rule leaveRoom_begin_idle) (use False in blast)
  then show ?thesis by simp
qed
















end
